theory Spec2Isabelle
  imports Complex_Main "HOL-Library.Multiset"
begin

section \<open>Go's float64\<close>

text \<open>
  The scrapers and the request handler compute with Go's \<^verbatim>\<open>float64\<close>. A value is a
  finite rational, one of the two infinities, or NaN. Every arithmetic operation rounds
  its exact result to the nearest binary64 value (53 significant bits, exponents from
  -1022 to 1023, ties to even, gradual underflow, overflow to an infinity).
  The sign of a zero is not recorded: \<^verbatim>\<open>-0\<close> and \<^verbatim>\<open>+0\<close> are one value \<open>Fin 0\<close>, as
  they are for Go's \<^verbatim>\<open>==\<close>; a finite nonzero value divided by zero takes the sign of
  the dividend.
\<close>

datatype float64 = Fin rat | PInf | NInf | NaN

definition pow2 :: "int \<Rightarrow> rat" where
  "pow2 e = (if 0 \<le> e then 2 ^ nat e else 1 / 2 ^ nat (- e))"

text \<open>The number of binary digits of a positive integer.\<close>

function bitlen :: "int \<Rightarrow> int" where
  "bitlen k = (if k \<le> 0 then 0 else 1 + bitlen (k div 2))"
  by pat_completeness auto
termination
  by (relation "measure nat") auto

declare bitlen.simps [simp del]

text \<open>\<open>ilog2 x\<close> is the binary exponent of a positive rational: \<open>2^e \<le> x < 2^(e+1)\<close>.\<close>

definition ilog2 :: "rat \<Rightarrow> int" where
  "ilog2 x = (let (p, q) = quotient_of x;
                  d = bitlen p - bitlen q
              in if pow2 d \<le> x then d else d - 1)"

definition round_half_even :: "rat \<Rightarrow> int" where
  "round_half_even q = (let f = \<lfloor>q\<rfloor>; r = q - of_int f
     in if r < 1 / 2 then f else if 1 / 2 < r then f + 1 else if even f then f else f + 1)"

definition round64 :: "rat \<Rightarrow> float64" where
  "round64 x = (if x = 0 then Fin 0 else
     let a = \<bar>x\<bar>; e = max (ilog2 a) (- 1022); u = pow2 (e - 52);
         n = round_half_even (a / u)
     in if 1024 \<le> e \<or> (e = 1023 \<and> n = 2 ^ 53) then (if 0 < x then PInf else NInf)
        else Fin (if 0 < x then of_int n * u else - (of_int n * u)))"

fun f64_neg :: "float64 \<Rightarrow> float64" where
  "f64_neg (Fin a) = Fin (- a)"
| "f64_neg PInf = NInf"
| "f64_neg NInf = PInf"
| "f64_neg NaN = NaN"

fun f64_add :: "float64 \<Rightarrow> float64 \<Rightarrow> float64" where
  "f64_add (Fin a) (Fin b) = round64 (a + b)"
| "f64_add NaN _ = NaN"
| "f64_add _ NaN = NaN"
| "f64_add PInf NInf = NaN"
| "f64_add NInf PInf = NaN"
| "f64_add PInf _ = PInf"
| "f64_add NInf _ = NInf"
| "f64_add _ PInf = PInf"
| "f64_add _ NInf = NInf"

definition f64_sub :: "float64 \<Rightarrow> float64 \<Rightarrow> float64" where
  "f64_sub x y = f64_add x (f64_neg y)"

text \<open>The sign of a value: \<open>Some True\<close> for a negative one, \<open>None\<close> for NaN.\<close>

fun f64_negative :: "float64 \<Rightarrow> bool option" where
  "f64_negative (Fin a) = Some (a < 0)"
| "f64_negative PInf = Some False"
| "f64_negative NInf = Some True"
| "f64_negative NaN = None"

definition signed_inf :: "bool \<Rightarrow> float64" where
  "signed_inf neg = (if neg then NInf else PInf)"

fun f64_mul :: "float64 \<Rightarrow> float64 \<Rightarrow> float64" where
  "f64_mul (Fin a) (Fin b) = round64 (a * b)"
| "f64_mul NaN _ = NaN"
| "f64_mul _ NaN = NaN"
| "f64_mul (Fin a) y = (if a = 0 then NaN else signed_inf ((a < 0) \<noteq> (y = NInf)))"
| "f64_mul x (Fin b) = (if b = 0 then NaN else signed_inf ((x = NInf) \<noteq> (b < 0)))"
| "f64_mul x y = signed_inf ((x = NInf) \<noteq> (y = NInf))"

fun f64_div :: "float64 \<Rightarrow> float64 \<Rightarrow> float64" where
  "f64_div (Fin a) (Fin b) =
     (if b = 0 then (if a = 0 then NaN else signed_inf (a < 0)) else round64 (a / b))"
| "f64_div NaN _ = NaN"
| "f64_div _ NaN = NaN"
| "f64_div (Fin a) _ = Fin 0"
| "f64_div x (Fin b) = signed_inf ((x = NInf) \<noteq> (b < 0))"
| "f64_div _ _ = NaN"

text \<open>Go's \<^verbatim>\<open>==\<close> and \<^verbatim>\<open>>=\<close> on float64: every comparison with NaN is false.\<close>

fun f64_eq :: "float64 \<Rightarrow> float64 \<Rightarrow> bool" where
  "f64_eq (Fin a) (Fin b) = (a = b)"
| "f64_eq PInf PInf = True"
| "f64_eq NInf NInf = True"
| "f64_eq _ _ = False"

fun f64_ge :: "float64 \<Rightarrow> float64 \<Rightarrow> bool" where
  "f64_ge (Fin a) (Fin b) = (b \<le> a)"
| "f64_ge NaN _ = False"
| "f64_ge _ NaN = False"
| "f64_ge PInf _ = True"
| "f64_ge _ NInf = True"
| "f64_ge _ _ = False"

fun f64_gt :: "float64 \<Rightarrow> float64 \<Rightarrow> bool" where
  "f64_gt (Fin a) (Fin b) = (b < a)"
| "f64_gt NaN _ = False"
| "f64_gt _ NaN = False"
| "f64_gt PInf PInf = False"
| "f64_gt NInf _ = False"
| "f64_gt PInf _ = True"
| "f64_gt _ NInf = True"
| "f64_gt _ PInf = False"

section \<open>Errors, strconv.ParseFloat, database/sql\<close>

text \<open>
  \<^verbatim>\<open>strconv.ParseFloat(s, 64)\<close> belongs to Go's standard library; it is a parameter of
  the model. It returns a value together with an optional \<^verbatim>\<open>*NumError\<close>, whose
  \<^verbatim>\<open>Err\<close> is \<^verbatim>\<open>ErrSyntax\<close> or \<^verbatim>\<open>ErrRange\<close>.
\<close>

datatype num_error = ErrSyntax | ErrRange

type_synonym parse_float = "string \<Rightarrow> float64 \<times> num_error option"

datatype error =
    NumError string num_error  \<comment> \<open>\<^verbatim>\<open>*strconv.NumError\<close>: the input and the cause\<close>
  | ScanError nat nat          \<comment> \<open>\<^verbatim>\<open>sql: expected n destination arguments in Scan, not m\<close>\<close>
  | DriverError string         \<comment> \<open>any error of the driver, a cancelled context included\<close>

text \<open>
  A \<^verbatim>\<open>context.Context\<close> is the context of the HTTP request, or one derived from it by
  \<^verbatim>\<open>context.WithTimeout\<close> with a \<^verbatim>\<open>time.Duration\<close> in nanoseconds. The duration is
  \<open>None\<close> where the source converts a float64 that has no int64 value: Go leaves the
  result of that conversion to the implementation.
\<close>

datatype "context" = RequestContext | WithTimeout "context" "int option"

text \<open>
  \<^verbatim>\<open>db.QueryContext(ctx, query)\<close> returns an error or the rows; a row is the list of
  its columns as text. \<^verbatim>\<open>rows.Scan\<close> fails when the number of destinations is not the
  number of columns.
\<close>

type_synonym row = "string list"

type_synonym sql_db = "context \<Rightarrow> string \<Rightarrow> error + row list"

section \<open>Metrics\<close>

datatype desc =
    SpaceDbInfo | VolNoInfo | BrokersInfo | BrokerInfo | StatdumpInfo | scrapeDurationDesc
  | scrapes_total | scrape_errors_total | last_scrape_error | up

datatype value_type = CounterValue | GaugeValue

text \<open>
  \<^verbatim>\<open>prometheus.MustNewConstMetric(desc, valueType, value, labelValues...)\<close>. Every call
  of the source passes as many label values as the descriptor has labels; label values
  are taken to be valid UTF-8.
\<close>

datatype metric = ConstMetric desc value_type float64 "string list"

fun metric_value :: "metric \<Rightarrow> float64" where
  "metric_value (ConstMetric d t v ls) = v"

fun metric_labels :: "metric \<Rightarrow> string list" where
  "metric_labels (ConstMetric d t v ls) = ls"

fun metric_desc :: "metric \<Rightarrow> desc" where
  "metric_desc (ConstMetric d t v ls) = d"

section \<open>collector/spacedb.go\<close>

definition spacedbStatus :: string where
  "spacedbStatus = ''spacedb''"

definition spacedbQuery :: string where
  "spacedbQuery = ''show spacedb demodb''"

text \<open>The body of the loop of \<^verbatim>\<open>ScrapeSpaceDBStatus.Scrape\<close> after a successful Scan.\<close>

definition spacedb_row ::
  "parse_float \<Rightarrow> string \<Rightarrow> string \<Rightarrow> string \<Rightarrow> string \<Rightarrow> string \<Rightarrow> string \<Rightarrow> metric list" where
  "spacedb_row pf vol_no type_col purpose count_col used_pages free_pages =
    (let fValue = fst (pf type_col);
         m1 = ConstMetric VolNoInfo GaugeValue fValue [vol_no, ''_type''];
         fValue = fst (pf type_col);
         m2 = ConstMetric VolNoInfo GaugeValue fValue [vol_no, ''purpose''];
         fValue = fst (pf count_col);
         m3 = ConstMetric VolNoInfo GaugeValue fValue [vol_no, ''count''];
         fValue = fst (pf used_pages);
         fUsedPagesValue = fValue;
         m4 = ConstMetric VolNoInfo GaugeValue fValue [vol_no, ''used_pages''];
         fValue = fst (pf free_pages);
         fFreePagesValue = fValue;
         m5 = ConstMetric VolNoInfo GaugeValue fValue [vol_no, ''free_pages''];
         average = f64_mul (f64_div fUsedPagesValue (f64_add fUsedPagesValue fFreePagesValue))
                     (Fin 100);
         average = (if f64_eq fUsedPagesValue (Fin 0) then Fin 0 else average);
         m6 = ConstMetric VolNoInfo GaugeValue average [vol_no, ''usedPercentage'']
     in [m1, m2, m3, m4, m5, m6])"

text \<open>
  The loop over the rows: the metrics sent on the channel so far, and the error
  returned, if any. A failing Scan returns at once; the metrics of the earlier rows
  have been sent.
\<close>

fun spacedb_rows :: "parse_float \<Rightarrow> row list \<Rightarrow> metric list \<times> error option" where
  "spacedb_rows pf [] = ([], None)"
| "spacedb_rows pf (r # rs) =
     (case r of
        [vol_no, type_col, purpose, count_col, used_pages, free_pages] \<Rightarrow>
          (let (ms, err) = spacedb_rows pf rs
           in (spacedb_row pf vol_no type_col purpose count_col used_pages free_pages @ ms, err))
      | _ \<Rightarrow> ([], Some (ScanError (length r) 6)))"

definition ScrapeSpaceDBStatus_Scrape ::
  "parse_float \<Rightarrow> context \<Rightarrow> sql_db \<Rightarrow> metric list \<times> error option" where
  "ScrapeSpaceDBStatus_Scrape pf c db =
     (case db c spacedbQuery of
        Inl err \<Rightarrow> ([], Some err)
      | Inr spaceDbRows \<Rightarrow> spacedb_rows pf spaceDbRows)"

section \<open>collector/broker_status.go\<close>

definition brokerStatus :: string where
  "brokerStatus = ''broker_status''"

definition brokerStatusQuery :: string where
  "brokerStatusQuery = ''show brokers''"

text \<open>
  The body of the loop of \<^verbatim>\<open>ScrapeBrokerStatus.Scrape\<close> after a successful Scan: each
  of the fourteen numeric columns is parsed, the error of the parse is dropped
  (\<^verbatim>\<open>count, _ := strconv.ParseFloat(...)\<close>) and the value is sent.
\<close>

definition broker_metric :: "parse_float \<Rightarrow> string \<Rightarrow> string \<Rightarrow> string \<Rightarrow> metric" where
  "broker_metric pf broker_name col key =
     (let count_col = fst (pf col)
      in ConstMetric BrokerInfo GaugeValue count_col [broker_name, key])"

definition broker_row :: "parse_float \<Rightarrow> string \<Rightarrow> string list \<Rightarrow> metric list" where
  "broker_row pf broker_name cols =
     (case cols of
        [num_as, pid, port, qsize, num_select, num_insert, num_update, num_delete,
         num_trans, num_query, num_conns, num_long_query, num_error_query, num_uniq_error] \<Rightarrow>
          [broker_metric pf broker_name num_as ''num_as'',
           broker_metric pf broker_name pid ''pid'',
           broker_metric pf broker_name port ''port'',
           broker_metric pf broker_name qsize ''qsize'',
           broker_metric pf broker_name num_select ''num_select'',
           broker_metric pf broker_name num_insert ''num_insert'',
           broker_metric pf broker_name num_update ''num_update'',
           broker_metric pf broker_name num_delete ''num_delete'',
           broker_metric pf broker_name num_trans ''num_trans'',
           broker_metric pf broker_name num_query ''num_query'',
           broker_metric pf broker_name num_conns ''num_conns'',
           broker_metric pf broker_name num_long_query ''num_long_query'',
           broker_metric pf broker_name num_error_query ''num_error_query'',
           broker_metric pf broker_name num_uniq_error ''num_uniq_error'']
      | _ \<Rightarrow> [])"

fun broker_rows :: "parse_float \<Rightarrow> row list \<Rightarrow> metric list \<times> error option" where
  "broker_rows pf [] = ([], None)"
| "broker_rows pf (r # rs) =
     (if length r = 15
      then (let (ms, err) = broker_rows pf rs
            in (broker_row pf (hd r) (tl r) @ ms, err))
      else ([], Some (ScanError (length r) 15)))"

definition ScrapeBrokerStatus_Scrape ::
  "parse_float \<Rightarrow> context \<Rightarrow> sql_db \<Rightarrow> metric list \<times> error option" where
  "ScrapeBrokerStatus_Scrape pf c db =
     (case db c brokerStatusQuery of
        Inl err \<Rightarrow> ([], Some err)
      | Inr brokerStatusRows \<Rightarrow> broker_rows pf brokerStatusRows)"

section \<open>collector/statdump.go\<close>

definition statdump :: string where
  "statdump = ''statdump''"

definition statdumpQuery :: string where
  "statdumpQuery = ''show statdump demodb''"

text \<open>
  The loop of \<^verbatim>\<open>ScrapeStatdump.Scrape\<close>: a value that does not parse ends the scrape
  with the \<^verbatim>\<open>*NumError\<close>; the metrics of the earlier rows have been sent.
\<close>

fun statdump_rows :: "parse_float \<Rightarrow> row list \<Rightarrow> metric list \<times> error option" where
  "statdump_rows pf [] = ([], None)"
| "statdump_rows pf (r # rs) =
     (case r of
        [key, val] \<Rightarrow>
          (case pf val of
             (floatValue, Some err) \<Rightarrow> ([], Some (NumError val err))
           | (floatValue, None) \<Rightarrow>
               (let (ms, err) = statdump_rows pf rs
                in (ConstMetric StatdumpInfo GaugeValue floatValue [key] # ms, err)))
      | _ \<Rightarrow> ([], Some (ScanError (length r) 2)))"

definition ScrapeStatdump_Scrape ::
  "parse_float \<Rightarrow> context \<Rightarrow> sql_db \<Rightarrow> metric list \<times> error option" where
  "ScrapeStatdump_Scrape pf c db =
     (case db c statdumpQuery of
        Inl err \<Rightarrow> ([], Some err)
      | Inr statdumpRows \<Rightarrow> statdump_rows pf statdumpRows)"

section \<open>collector/scraper.go\<close>

text \<open>
  The interface \<^verbatim>\<open>Scraper\<close>. \<^verbatim>\<open>Scrape(ctx, db, ch)\<close> yields the metrics it sends on
  \<^verbatim>\<open>ch\<close>, in order, and the error it returns.
\<close>

record scraper =
  Name :: string
  Help :: string
  Version :: float64
  Scrape :: "context \<Rightarrow> sql_db \<Rightarrow> metric list \<times> error option"

definition ScrapeBrokerStatus :: "parse_float \<Rightarrow> scraper" where
  "ScrapeBrokerStatus pf =
     \<lparr>Name = brokerStatus, Help = ''Scrape information from brokerStatusQuery'',
      Version = round64 (51 / 5), Scrape = ScrapeBrokerStatus_Scrape pf\<rparr>"

definition ScrapeStatdump :: "parse_float \<Rightarrow> scraper" where
  "ScrapeStatdump pf =
     \<lparr>Name = statdump, Help = ''Scrape information from statdump Query'',
      Version = round64 (51 / 5), Scrape = ScrapeStatdump_Scrape pf\<rparr>"

definition ScrapeSpaceDBStatus :: "parse_float \<Rightarrow> scraper" where
  "ScrapeSpaceDBStatus pf =
     \<lparr>Name = spacedbStatus, Help = ''Scrape information from spacedbQuery'',
      Version = round64 (51 / 5), Scrape = ScrapeSpaceDBStatus_Scrape pf\<rparr>"

section \<open>collector/exporter.go: the Exporter\<close>

text \<open>
  \<^verbatim>\<open>Exporter\<close> holds the context, the DSN and the scrapers of one request. Its fourth
  field, \<^verbatim>\<open>metrics\<close>, points to counters and gauges that live across requests; they are
  the state that a scrape cycle reads and updates, and are passed separately.
\<close>

record Exporter =
  ctx :: "context"
  dsn :: string
  scrapers :: "scraper list"

definition New :: "context \<Rightarrow> string \<Rightarrow> scraper list \<Rightarrow> Exporter" where
  "New c d scrs = \<lparr>ctx = c, dsn = d, scrapers = scrs\<rparr>"

text \<open>What the program writes to its log.\<close>

datatype log_entry =
    FailedToParseTimeout error
      \<comment> \<open>\<^verbatim>\<open>log.Errorf("Failed to parse timeout from Prometheus header: %s", err)\<close>\<close>
  | TimeoutOffsetShouldBeLower float64 float64
      \<comment> \<open>\<^verbatim>\<open>log.Errorf("Timeout offset (--timeout-offset=%.2f) should be lower than ...")\<close>\<close>
  | CollectQuery "string list"
      \<comment> \<open>\<^verbatim>\<open>log.Debugln("collect query:", params)\<close>\<close>
  | ErrorOpeningConnection error
      \<comment> \<open>\<^verbatim>\<open>log.Errorln("Error opening connection to database:", err)\<close>\<close>
  | ErrorScraping string error
      \<comment> \<open>\<^verbatim>\<open>log.Errorln("Error scraping for "+label+":", err)\<close>\<close>

section \<open>cubrid_exporter.go: the request handler\<close>

text \<open>\<^verbatim>\<open>createDSN\<close> assigns the global \<^verbatim>\<open>dsn\<close>.\<close>

definition createDSN :: string where
  "createDSN =
     (let ip = ''192.168.1.8''; port = ''45105''; databaseName = ''demodb'';
          username = ''dba''; password = []
      in ''cci:cubrid:'' @ ip @ '':'' @ port @ '':'' @ databaseName @ '':'' @ username @ '':''
           @ password @ '':'')"

text \<open>
  \<^verbatim>\<open>time.Second\<close> in nanoseconds, and the conversion \<^verbatim>\<open>time.Duration(f)\<close> of a float64:
  the fraction is discarded (truncation towards zero); a NaN, an infinity or a value
  outside int64 has no defined result.
\<close>

definition time_Second :: int where
  "time_Second = 1000000000"

fun f64_to_int64 :: "float64 \<Rightarrow> int option" where
  "f64_to_int64 (Fin a) =
     (let t = (if 0 \<le> a then \<lfloor>a\<rfloor> else - \<lfloor>- a\<rfloor>)
      in if - (2 ^ 63) \<le> t \<and> t < 2 ^ 63 then Some t else None)"
| "f64_to_int64 _ = None"

text \<open>
  Lines 71 to 81 of the handler: the offset is subtracted from the caller's timeout
  unless it is greater than or equal to it; then the timeout is left as it is and an
  error is logged. The result is the new \<^verbatim>\<open>timeoutSeconds\<close> and the log lines.
\<close>

definition adjust_timeout :: "float64 \<Rightarrow> float64 \<Rightarrow> float64 \<times> log_entry list" where
  "adjust_timeout timeoutOffset timeoutSeconds =
     (if f64_ge timeoutOffset timeoutSeconds
      then (timeoutSeconds, [TimeoutOffsetShouldBeLower timeoutOffset timeoutSeconds])
      else (f64_sub timeoutSeconds timeoutOffset, []))"

text \<open>
  Lines 64 to 89: the context of the cycle, from the value \<open>v\<close> of the header
  \<^verbatim>\<open>X-Prometheus-Scrape-Timeout-Seconds\<close> (\<^verbatim>\<open>Header.Get\<close> gives the empty string when the
  header is absent).
\<close>

definition request_context :: "parse_float \<Rightarrow> float64 \<Rightarrow> string \<Rightarrow> context \<times> log_entry list" where
  "request_context pf timeoutOffset v =
     (let c = RequestContext
      in if v \<noteq> []
         then (case pf v of
                 (timeoutSeconds, Some err) \<Rightarrow> (c, [FailedToParseTimeout (NumError v err)])
               | (timeoutSeconds, None) \<Rightarrow>
                   (let (timeoutSeconds, lg) = adjust_timeout timeoutOffset timeoutSeconds
                    in (WithTimeout c
                          (f64_to_int64 (f64_mul timeoutSeconds (Fin (of_int time_Second)))),
                        lg)))
         else (c, []))"

text \<open>
  Lines 93 to 105: the map \<^verbatim>\<open>filters\<close> built from the \<^verbatim>\<open>collect[]\<close> parameters (a missing
  key reads as \<^verbatim>\<open>false\<close>) and the loop that appends the scrapers it selects.
\<close>

fun make_filters :: "string list \<Rightarrow> (string \<rightharpoonup> bool) \<Rightarrow> (string \<rightharpoonup> bool)" where
  "make_filters [] filters = filters"
| "make_filters (param # params) filters = make_filters params (filters(param \<mapsto> True))"

definition filters_get :: "(string \<rightharpoonup> bool) \<Rightarrow> string \<Rightarrow> bool" where
  "filters_get filters k = (case filters k of None \<Rightarrow> False | Some b \<Rightarrow> b)"

fun append_filtered :: "(string \<rightharpoonup> bool) \<Rightarrow> scraper list \<Rightarrow> scraper list \<Rightarrow> scraper list" where
  "append_filtered filters [] filteredScrapers = filteredScrapers"
| "append_filtered filters (scr # scrs) filteredScrapers =
     append_filtered filters scrs
       (if filters_get filters (Name scr) then filteredScrapers @ [scr] else filteredScrapers)"

definition filter_scrapers :: "scraper list \<Rightarrow> string list \<Rightarrow> scraper list" where
  "filter_scrapers scrs params =
     (let filteredScrapers = scrs
      in if length params > 0
         then (let filters = make_filters params Map.empty
               in append_filtered filters scrs [])
         else filteredScrapers)"

text \<open>
  The handler up to the construction of the collector: the Exporter that serves the
  request, and the log. \<open>scrs\<close> are the scrapers enabled at start-up, \<open>params\<close> the
  \<^verbatim>\<open>collect[]\<close> parameters, \<open>v\<close> the timeout header.
\<close>

definition newHandler ::
  "parse_float \<Rightarrow> float64 \<Rightarrow> scraper list \<Rightarrow> string list \<Rightarrow> string \<Rightarrow> Exporter \<times> log_entry list" where
  "newHandler pf timeoutOffset scrs params v =
     (let (c, lg) = request_context pf timeoutOffset v;
          lg = lg @ [CollectQuery params];
          filteredScrapers = filter_scrapers scrs params
      in (New c createDSN filteredScrapers, lg))"

text \<open>
  The map \<^verbatim>\<open>scrapers\<close>: every collection method and whether it is enabled by default.
  Go ranges over a map in no fixed order; the list gives one order.
\<close>

definition scrapers_map :: "parse_float \<Rightarrow> (scraper \<times> bool) list" where
  "scrapers_map pf =
     [(ScrapeBrokerStatus pf, True), (ScrapeStatdump pf, True), (ScrapeSpaceDBStatus pf, True)]"

text \<open>
  \<^verbatim>\<open>main\<close>, lines 136 to 180. A flag \<^verbatim>\<open>--collect.<name>\<close> is declared for every scraper of
  the map, its default the entry of the map; \<open>flags\<close> are the flags given on the command
  line, each at most once, with their values (\<^verbatim>\<open>--no-collect.<name>\<close> gives \<open>False\<close>), so
  \<open>scraperFlags\<close> is the
  map of line 136 after \<^verbatim>\<open>kingpin.Parse()\<close>. "Register only scrapers enabled by flag":
  \<open>enabledScrapers\<close> is the list of line 173, and \<open>handlerFunc\<close> the handler built with it.
\<close>

definition scraperFlags :: "(string \<times> bool) list \<Rightarrow> (scraper \<times> bool) list \<Rightarrow> (scraper \<times> bool) list" where
  "scraperFlags flags m =
     map (\<lambda>(scr, enabledByDefault).
            (scr, case map_of flags (''collect.'' @ Name scr) of
                    None \<Rightarrow> enabledByDefault
                  | Some enabled \<Rightarrow> enabled)) m"

definition enabledScrapers :: "(scraper \<times> bool) list \<Rightarrow> scraper list" where
  "enabledScrapers sf = map fst (filter snd sf)"

definition handlerFunc ::
  "parse_float \<Rightarrow> float64 \<Rightarrow> (string \<times> bool) list \<Rightarrow> string list \<Rightarrow> string
     \<Rightarrow> Exporter \<times> log_entry list" where
  "handlerFunc pf timeoutOffset flags params v =
     newHandler pf timeoutOffset (enabledScrapers (scraperFlags flags (scrapers_map pf))) params v"

section \<open>collector/exporter.go: Metrics\<close>

text \<open>
  \<^verbatim>\<open>Metrics\<close>: the exporter's own metrics, carried between HTTP requests. A counter is a
  natural number. The counter vector \<^verbatim>\<open>ScrapeErrors\<close> has one child per label value, made
  by the first \<^verbatim>\<open>WithLabelValues\<close> for it. A gauge holds a float64.
\<close>

record Metrics =
  TotalScrapes :: nat
  ScrapeErrors :: "(string \<times> nat) list"
  Error :: float64
  CubridUp :: float64

definition NewMetrics :: Metrics where
  "NewMetrics = \<lparr>TotalScrapes = 0, ScrapeErrors = [], Error = Fin 0, CubridUp = Fin 0\<rparr>"

text \<open>\<^verbatim>\<open>ScrapeErrors.WithLabelValues(label).Inc()\<close>\<close>

fun WithLabelValues_Inc :: "string \<Rightarrow> (string \<times> nat) list \<Rightarrow> (string \<times> nat) list" where
  "WithLabelValues_Inc label [] = [(label, 1)]"
| "WithLabelValues_Inc label ((k, n) # children) =
     (if k = label then (k, Suc n) # children
      else (k, n) # WithLabelValues_Inc label children)"

text \<open>The value of the child for a label; 0 when there is none yet.\<close>

definition counter_value :: "(string \<times> nat) list \<Rightarrow> string \<Rightarrow> nat" where
  "counter_value children label = (case map_of children label of None \<Rightarrow> 0 | Some n \<Rightarrow> n)"

text \<open>What each of the exporter's metrics sends when it is collected.\<close>

definition TotalScrapes_metric :: "Metrics \<Rightarrow> metric" where
  "TotalScrapes_metric m = ConstMetric scrapes_total CounterValue (Fin (of_nat (TotalScrapes m))) []"

definition Error_metric :: "Metrics \<Rightarrow> metric" where
  "Error_metric m = ConstMetric last_scrape_error GaugeValue (Error m) []"

definition ScrapeErrors_metrics :: "Metrics \<Rightarrow> metric list" where
  "ScrapeErrors_metrics m =
     map (\<lambda>(label, n). ConstMetric scrape_errors_total CounterValue (Fin (of_nat n)) [label])
       (ScrapeErrors m)"

definition CubridUp_metric :: "Metrics \<Rightarrow> metric" where
  "CubridUp_metric m = ConstMetric up GaugeValue (CubridUp m) []"

section \<open>collector/exporter.go: one scrape cycle\<close>

text \<open>
  What a cycle takes from outside the program: the result of
  \<^verbatim>\<open>sql.Open(driverName, dataSourceName)\<close>, and the seconds that
  \<^verbatim>\<open>time.Since(scrapeTime).Seconds()\<close> measures for each phase, by the label of the phase.
\<close>

record env =
  sql_Open :: "string \<Rightarrow> string \<Rightarrow> error + sql_db"
  since :: "string \<Rightarrow> float64"

text \<open>
  The handle \<^verbatim>\<open>db\<close>, and the calls made on it in the order they happen.
  After \<^verbatim>\<open>Close\<close> every query fails.
\<close>

datatype db_state = NotOpened | Opened sql_db | Closed

datatype db_op =
    Op_Open | Op_SetMaxOpenConns nat | Op_SetMaxIdleConns nat | Op_SetConnMaxLifetime int
  | Op_Scrape string | Op_Close

definition closed_db :: sql_db where
  "closed_db c q = Inl (DriverError ''sql: database is closed'')"

text \<open>
  \<^verbatim>\<open>Collect\<close> and \<^verbatim>\<open>scrape\<close> run in the goroutine of the caller; \<^verbatim>\<open>scrape\<close> starts one
  goroutine per scraper. A goroutine is at one statement at a time. The statements of
  \<^verbatim>\<open>Collect\<close> and \<^verbatim>\<open>scrape\<close>, by line of exporter.go, the deferred calls where they run:
\<close>

datatype pc =
    TotalScrapes_Inc                   \<comment> \<open>94\<close>
  | Call_sql_Open                      \<comment> \<open>99\<close>
  | Log_open_error error               \<comment> \<open>101\<close>
  | Error_Set_1                        \<comment> \<open>102, and the return of 103\<close>
  | SetMaxOpenConns                    \<comment> \<open>108\<close>
  | SetMaxIdleConns                    \<comment> \<open>109\<close>
  | SetConnMaxLifetime                 \<comment> \<open>111\<close>
  | CubridUp_Set_1                     \<comment> \<open>113\<close>
  | Error_Set_0                        \<comment> \<open>114\<close>
  | Send_connection_duration           \<comment> \<open>116\<close>
  | wg_Add scraper "scraper list"      \<comment> \<open>120, 122: this scraper, and those still to range over\<close>
  | go scraper "scraper list"          \<comment> \<open>123\<close>
  | wg_Wait                            \<comment> \<open>119, deferred: runs first when scrape returns\<close>
  | db_Close                           \<comment> \<open>105, deferred: runs after wg.Wait\<close>
  | Send_TotalScrapes                  \<comment> \<open>87\<close>
  | Send_Error                         \<comment> \<open>88\<close>
  | ScrapeErrors_Collect               \<comment> \<open>89\<close>
  | Send_CubridUp                      \<comment> \<open>90\<close>
  | Return                             \<comment> \<open>91: Collect returns, the stream of metrics ends\<close>
  | Returned

text \<open>
  The statements of the goroutine started on line 123. While \<^verbatim>\<open>scraper.Scrape\<close> runs
  it sends its metrics one at a time; \<open>Sending\<close> holds those still to send and the
  error it will return.
\<close>

datatype goroutine =
    Call_Scrape scraper                              \<comment> \<open>125 to 127\<close>
  | Sending scraper "metric list" "error option"     \<comment> \<open>127, inside Scrape\<close>
  | Log_scrape_error scraper error                   \<comment> \<open>128\<close>
  | ScrapeErrors_Inc scraper                         \<comment> \<open>129\<close>
  | Error_Set_1_scraper scraper                      \<comment> \<open>130\<close>
  | Send_duration scraper                            \<comment> \<open>132\<close>
  | wg_Done                                          \<comment> \<open>124, deferred\<close>
  | Exited

text \<open>
  The state of a cycle. \<open>ch\<close> holds the metrics the consumer has received from the
  channel, in order; \<open>ch_closed\<close> says that the stream has ended. \<open>panicked\<close> records
  a send on the ended stream or a negative WaitGroup counter.
\<close>

record state =
  pc :: pc
  goroutines :: "goroutine list"
  wg :: int
  db_conn :: db_state
  db_ops :: "db_op list"
  ch :: "metric list"
  ch_closed :: bool
  metrics :: Metrics
  logged :: "log_entry list"
  panicked :: bool

definition init :: "Metrics \<Rightarrow> state" where
  "init m = \<lparr>pc = TotalScrapes_Inc, goroutines = [], wg = 0, db_conn = NotOpened, db_ops = [],
             ch = [], ch_closed = False, metrics = m, logged = [], panicked = False\<rparr>"

text \<open>\<^verbatim>\<open>ch <- m\<close>\<close>

definition send :: "metric \<Rightarrow> state \<Rightarrow> state" where
  "send m s = (if ch_closed s then s\<lparr>panicked := True\<rparr> else s\<lparr>ch := ch s @ [m]\<rparr>)"

definition collect_label :: "scraper \<Rightarrow> string" where
  "collect_label scr = ''collect.'' @ Name scr"

definition duration_metric :: "env \<Rightarrow> string \<Rightarrow> metric" where
  "duration_metric ev label = ConstMetric scrapeDurationDesc GaugeValue (since ev label) [label]"

text \<open>The head of the loop of line 120 over the scrapers still to start.\<close>

definition range_scrapers :: "scraper list \<Rightarrow> pc" where
  "range_scrapers scrs = (case scrs of [] \<Rightarrow> wg_Wait | scr # rest \<Rightarrow> wg_Add scr rest)"

text \<open>
  One statement of \<^verbatim>\<open>Collect\<close> and \<^verbatim>\<open>scrape\<close>. There is no next state where the
  goroutine cannot move: in \<^verbatim>\<open>wg.Wait()\<close> while the counter is not 0, and after the
  return.
\<close>

definition main_step :: "env \<Rightarrow> Exporter \<Rightarrow> state \<Rightarrow> state option" where
  "main_step ev e s =
     (case pc s of
        TotalScrapes_Inc \<Rightarrow>
          Some (s\<lparr>metrics := (metrics s)\<lparr>TotalScrapes := Suc (TotalScrapes (metrics s))\<rparr>,
                  pc := Call_sql_Open\<rparr>)
      | Call_sql_Open \<Rightarrow>
          (case sql_Open ev ''cubrid'' (dsn e) of
             Inl err \<Rightarrow> Some (s\<lparr>db_ops := db_ops s @ [Op_Open], pc := Log_open_error err\<rparr>)
           | Inr d \<Rightarrow> Some (s\<lparr>db_ops := db_ops s @ [Op_Open], db_conn := Opened d,
                               pc := SetMaxOpenConns\<rparr>))
      | Log_open_error err \<Rightarrow>
          Some (s\<lparr>logged := logged s @ [ErrorOpeningConnection err], pc := Error_Set_1\<rparr>)
      | Error_Set_1 \<Rightarrow>
          Some (s\<lparr>metrics := (metrics s)\<lparr>Error := Fin 1\<rparr>, pc := Send_TotalScrapes\<rparr>)
      | SetMaxOpenConns \<Rightarrow>
          Some (s\<lparr>db_ops := db_ops s @ [Op_SetMaxOpenConns 1], pc := SetMaxIdleConns\<rparr>)
      | SetMaxIdleConns \<Rightarrow>
          Some (s\<lparr>db_ops := db_ops s @ [Op_SetMaxIdleConns 1], pc := SetConnMaxLifetime\<rparr>)
      | SetConnMaxLifetime \<Rightarrow>
          Some (s\<lparr>db_ops := db_ops s @ [Op_SetConnMaxLifetime (60 * time_Second)],
                  pc := CubridUp_Set_1\<rparr>)
      | CubridUp_Set_1 \<Rightarrow>
          Some (s\<lparr>metrics := (metrics s)\<lparr>CubridUp := Fin 1\<rparr>, pc := Error_Set_0\<rparr>)
      | Error_Set_0 \<Rightarrow>
          Some (s\<lparr>metrics := (metrics s)\<lparr>Error := Fin 0\<rparr>, pc := Send_connection_duration\<rparr>)
      | Send_connection_duration \<Rightarrow>
          Some ((send (duration_metric ev ''connection'') s)\<lparr>pc := range_scrapers (scrapers e)\<rparr>)
      | wg_Add scr rest \<Rightarrow> Some (s\<lparr>wg := wg s + 1, pc := go scr rest\<rparr>)
      | go scr rest \<Rightarrow>
          Some (s\<lparr>goroutines := goroutines s @ [Call_Scrape scr], pc := range_scrapers rest\<rparr>)
      | wg_Wait \<Rightarrow> (if wg s = 0 then Some (s\<lparr>pc := db_Close\<rparr>) else None)
      | db_Close \<Rightarrow>
          Some (s\<lparr>db_ops := db_ops s @ [Op_Close], db_conn := Closed, pc := Send_TotalScrapes\<rparr>)
      | Send_TotalScrapes \<Rightarrow>
          Some ((send (TotalScrapes_metric (metrics s)) s)\<lparr>pc := Send_Error\<rparr>)
      | Send_Error \<Rightarrow>
          Some ((send (Error_metric (metrics s)) s)\<lparr>pc := ScrapeErrors_Collect\<rparr>)
      | ScrapeErrors_Collect \<Rightarrow>
          Some ((fold send (ScrapeErrors_metrics (metrics s)) s)\<lparr>pc := Send_CubridUp\<rparr>)
      | Send_CubridUp \<Rightarrow>
          Some ((send (CubridUp_metric (metrics s)) s)\<lparr>pc := Return\<rparr>)
      | Return \<Rightarrow> Some (s\<lparr>ch_closed := True, pc := Returned\<rparr>)
      | Returned \<Rightarrow> None)"

text \<open>
  One statement of a goroutine: the new state of the goroutine and of the cycle.
  \<^verbatim>\<open>Scrape\<close> is called with the context of the Exporter and the handle \<^verbatim>\<open>db\<close> as it is
  at that moment.
\<close>

definition goroutine_step ::
  "env \<Rightarrow> Exporter \<Rightarrow> goroutine \<Rightarrow> state \<Rightarrow> (goroutine \<times> state) option" where
  "goroutine_step ev e g s =
     (case g of
        Call_Scrape scr \<Rightarrow>
          (let (ms, err) = Scrape scr (ctx e) (case db_conn s of Opened d \<Rightarrow> d | _ \<Rightarrow> closed_db)
           in Some (Sending scr ms err, s\<lparr>db_ops := db_ops s @ [Op_Scrape (collect_label scr)]\<rparr>))
      | Sending scr (m # ms) err \<Rightarrow> Some (Sending scr ms err, send m s)
      | Sending scr [] None \<Rightarrow> Some (Send_duration scr, s)
      | Sending scr [] (Some err) \<Rightarrow> Some (Log_scrape_error scr err, s)
      | Log_scrape_error scr err \<Rightarrow>
          Some (ScrapeErrors_Inc scr,
                s\<lparr>logged := logged s @ [ErrorScraping (collect_label scr) err]\<rparr>)
      | ScrapeErrors_Inc scr \<Rightarrow>
          Some (Error_Set_1_scraper scr,
                s\<lparr>metrics := (metrics s)\<lparr>ScrapeErrors :=
                     WithLabelValues_Inc (collect_label scr) (ScrapeErrors (metrics s))\<rparr>\<rparr>)
      | Error_Set_1_scraper scr \<Rightarrow>
          Some (Send_duration scr, s\<lparr>metrics := (metrics s)\<lparr>Error := Fin 1\<rparr>\<rparr>)
      | Send_duration scr \<Rightarrow> Some (wg_Done, send (duration_metric ev (collect_label scr)) s)
      | wg_Done \<Rightarrow>
          Some (Exited, if wg s - 1 < 0 then s\<lparr>wg := wg s - 1, panicked := True\<rparr>
                        else s\<lparr>wg := wg s - 1\<rparr>)
      | Exited \<Rightarrow> None)"

text \<open>
  The scheduler picks the goroutine that moves: 0 is the goroutine of \<^verbatim>\<open>Collect\<close>,
  \<open>i + 1\<close> the goroutine started \<open>i\<close>-th. A run follows a list of such choices; it is
  \<open>None\<close> when a choice names a goroutine that cannot move.
\<close>

definition step :: "env \<Rightarrow> Exporter \<Rightarrow> nat \<Rightarrow> state \<Rightarrow> state option" where
  "step ev e tid s =
     (case tid of
        0 \<Rightarrow> main_step ev e s
      | Suc i \<Rightarrow>
          (if i < length (goroutines s)
           then (case goroutine_step ev e (goroutines s ! i) s of
                   None \<Rightarrow> None
                 | Some (g, s') \<Rightarrow> Some (s'\<lparr>goroutines := (goroutines s')[i := g]\<rparr>))
           else None))"

fun run :: "env \<Rightarrow> Exporter \<Rightarrow> nat list \<Rightarrow> state \<Rightarrow> state option" where
  "run ev e [] s = Some s"
| "run ev e (tid # sched) s =
     (case step ev e tid s of None \<Rightarrow> None | Some s' \<Rightarrow> run ev e sched s')"

section \<open>Invariants of a cycle\<close>

text \<open>The number of goroutines started and not yet exited.\<close>

definition running :: "goroutine \<Rightarrow> nat" where
  "running g = (if g = Exited then 0 else 1)"

definition unfinished :: "state \<Rightarrow> nat" where
  "unfinished s = sum_list (map running (goroutines s))"

definition quiet :: "state \<Rightarrow> bool" where
  "quiet s \<longleftrightarrow> goroutines s = [] \<and> wg s = 0 \<and> \<not> ch_closed s"

definition joined :: "state \<Rightarrow> bool" where
  "joined s \<longleftrightarrow> unfinished s = 0 \<and> wg s = 0"

definition is_open :: "env \<Rightarrow> Exporter \<Rightarrow> state \<Rightarrow> bool" where
  "is_open ev e s \<longleftrightarrow>
     (case db_conn s of Opened d \<Rightarrow> sql_Open ev ''cubrid'' (dsn e) = Inr d | _ \<Rightarrow> False)"

text \<open>
  What holds at each statement of \<^verbatim>\<open>Collect\<close> and \<^verbatim>\<open>scrape\<close>: no goroutine exists
  before the loop; in the loop and in \<^verbatim>\<open>wg.Wait()\<close> the WaitGroup counter is the number
  of goroutines that have not exited (one more between \<^verbatim>\<open>wg.Add(1)\<close> and \<^verbatim>\<open>go\<close>) and
  the handle is open; from \<^verbatim>\<open>db.Close()\<close> on every goroutine has exited; the stream
  ends only with the return.
\<close>

definition safe :: "env \<Rightarrow> Exporter \<Rightarrow> state \<Rightarrow> bool" where
  "safe ev e s \<longleftrightarrow> \<not> panicked s \<and>
     (case pc s of
        TotalScrapes_Inc \<Rightarrow> quiet s \<and> db_conn s = NotOpened
      | Call_sql_Open \<Rightarrow> quiet s \<and> db_conn s = NotOpened
      | Log_open_error err \<Rightarrow>
          quiet s \<and> db_conn s = NotOpened \<and> sql_Open ev ''cubrid'' (dsn e) = Inl err
      | Error_Set_1 \<Rightarrow>
          quiet s \<and> db_conn s = NotOpened \<and> isl (sql_Open ev ''cubrid'' (dsn e))
      | SetMaxOpenConns \<Rightarrow> quiet s \<and> is_open ev e s
      | SetMaxIdleConns \<Rightarrow> quiet s \<and> is_open ev e s
      | SetConnMaxLifetime \<Rightarrow> quiet s \<and> is_open ev e s
      | CubridUp_Set_1 \<Rightarrow> quiet s \<and> is_open ev e s
      | Error_Set_0 \<Rightarrow> quiet s \<and> is_open ev e s
      | Send_connection_duration \<Rightarrow> quiet s \<and> is_open ev e s
      | wg_Add scr rest \<Rightarrow> is_open ev e s \<and> \<not> ch_closed s \<and> wg s = int (unfinished s)
      | go scr rest \<Rightarrow> is_open ev e s \<and> \<not> ch_closed s \<and> wg s = int (unfinished s) + 1
      | wg_Wait \<Rightarrow> is_open ev e s \<and> \<not> ch_closed s \<and> wg s = int (unfinished s)
      | db_Close \<Rightarrow> is_open ev e s \<and> \<not> ch_closed s \<and> joined s
      | Send_TotalScrapes \<Rightarrow> \<not> is_open ev e s \<and> \<not> ch_closed s \<and> joined s
      | Send_Error \<Rightarrow> \<not> is_open ev e s \<and> \<not> ch_closed s \<and> joined s
      | ScrapeErrors_Collect \<Rightarrow> \<not> is_open ev e s \<and> \<not> ch_closed s \<and> joined s
      | Send_CubridUp \<Rightarrow> \<not> is_open ev e s \<and> \<not> ch_closed s \<and> joined s
      | Return \<Rightarrow> \<not> is_open ev e s \<and> \<not> ch_closed s \<and> joined s
      | Returned \<Rightarrow> \<not> is_open ev e s \<and> ch_closed s \<and> joined s)"

text \<open>
  The handle that \<^verbatim>\<open>sql.Open\<close> returns in this cycle, and for every goroutine what it
  has still to do: the metrics it will send, the label whose error counter it will
  increment, whether it will set the error gauge, and its call on the handle.
\<close>

definition the_db :: "env \<Rightarrow> Exporter \<Rightarrow> sql_db" where
  "the_db ev e = (case sql_Open ev ''cubrid'' (dsn e) of Inl err \<Rightarrow> closed_db | Inr d \<Rightarrow> d)"

definition scrape_result :: "env \<Rightarrow> Exporter \<Rightarrow> scraper \<Rightarrow> metric list \<times> error option" where
  "scrape_result ev e scr = Scrape scr (ctx e) (the_db ev e)"

fun g_sends :: "env \<Rightarrow> Exporter \<Rightarrow> goroutine \<Rightarrow> metric list" where
  "g_sends ev e (Call_Scrape scr) =
     fst (scrape_result ev e scr) @ [duration_metric ev (collect_label scr)]"
| "g_sends ev e (Sending scr ms err) = ms @ [duration_metric ev (collect_label scr)]"
| "g_sends ev e (Log_scrape_error scr err) = [duration_metric ev (collect_label scr)]"
| "g_sends ev e (ScrapeErrors_Inc scr) = [duration_metric ev (collect_label scr)]"
| "g_sends ev e (Error_Set_1_scraper scr) = [duration_metric ev (collect_label scr)]"
| "g_sends ev e (Send_duration scr) = [duration_metric ev (collect_label scr)]"
| "g_sends ev e wg_Done = []"
| "g_sends ev e Exited = []"

fun g_incs :: "env \<Rightarrow> Exporter \<Rightarrow> goroutine \<Rightarrow> string list" where
  "g_incs ev e (Call_Scrape scr) =
     (if snd (scrape_result ev e scr) = None then [] else [collect_label scr])"
| "g_incs ev e (Sending scr ms err) = (if err = None then [] else [collect_label scr])"
| "g_incs ev e (Log_scrape_error scr err) = [collect_label scr]"
| "g_incs ev e (ScrapeErrors_Inc scr) = [collect_label scr]"
| "g_incs ev e _ = []"

fun g_fails :: "env \<Rightarrow> Exporter \<Rightarrow> goroutine \<Rightarrow> bool" where
  "g_fails ev e (Call_Scrape scr) = (snd (scrape_result ev e scr) \<noteq> None)"
| "g_fails ev e (Sending scr ms err) = (err \<noteq> None)"
| "g_fails ev e (Log_scrape_error scr err) = True"
| "g_fails ev e (ScrapeErrors_Inc scr) = True"
| "g_fails ev e (Error_Set_1_scraper scr) = True"
| "g_fails ev e _ = False"

fun g_ops :: "goroutine \<Rightarrow> db_op list" where
  "g_ops (Call_Scrape scr) = [Op_Scrape (collect_label scr)]"
| "g_ops _ = []"

text \<open>
  The scrapers for which \<^verbatim>\<open>scrape\<close> has still to start a goroutine, and the goroutines
  of the cycle: those started and those to come.
\<close>

definition opens :: "env \<Rightarrow> Exporter \<Rightarrow> bool" where
  "opens ev e \<longleftrightarrow> \<not> isl (sql_Open ev ''cubrid'' (dsn e))"

definition to_start :: "env \<Rightarrow> Exporter \<Rightarrow> pc \<Rightarrow> scraper list" where
  "to_start ev e p =
     (case p of
        TotalScrapes_Inc \<Rightarrow> if opens ev e then scrapers e else []
      | Call_sql_Open \<Rightarrow> if opens ev e then scrapers e else []
      | SetMaxOpenConns \<Rightarrow> scrapers e
      | SetMaxIdleConns \<Rightarrow> scrapers e
      | SetConnMaxLifetime \<Rightarrow> scrapers e
      | CubridUp_Set_1 \<Rightarrow> scrapers e
      | Error_Set_0 \<Rightarrow> scrapers e
      | Send_connection_duration \<Rightarrow> scrapers e
      | wg_Add scr rest \<Rightarrow> scr # rest
      | go scr rest \<Rightarrow> scr # rest
      | _ \<Rightarrow> [])"

definition all_goroutines :: "env \<Rightarrow> Exporter \<Rightarrow> state \<Rightarrow> goroutine list" where
  "all_goroutines ev e s = goroutines s @ map Call_Scrape (to_start ev e (pc s))"

text \<open>Whether line 116 has still to send the duration of the connection phase.\<close>

definition connection_pending :: "env \<Rightarrow> Exporter \<Rightarrow> pc \<Rightarrow> metric list" where
  "connection_pending ev e p =
     (case p of
        TotalScrapes_Inc \<Rightarrow> if opens ev e then [duration_metric ev ''connection''] else []
      | Call_sql_Open \<Rightarrow> if opens ev e then [duration_metric ev ''connection''] else []
      | SetMaxOpenConns \<Rightarrow> [duration_metric ev ''connection'']
      | SetMaxIdleConns \<Rightarrow> [duration_metric ev ''connection'']
      | SetConnMaxLifetime \<Rightarrow> [duration_metric ev ''connection'']
      | CubridUp_Set_1 \<Rightarrow> [duration_metric ev ''connection'']
      | Error_Set_0 \<Rightarrow> [duration_metric ev ''connection'']
      | Send_connection_duration \<Rightarrow> [duration_metric ev ''connection'']
      | _ \<Rightarrow> [])"

text \<open>The metrics \<^verbatim>\<open>Collect\<close> has sent after \<^verbatim>\<open>scrape\<close> when it is at a statement.\<close>

definition collected :: "pc \<Rightarrow> Metrics \<Rightarrow> metric list" where
  "collected p m =
     (case p of
        Send_Error \<Rightarrow> [TotalScrapes_metric m]
      | ScrapeErrors_Collect \<Rightarrow> [TotalScrapes_metric m, Error_metric m]
      | Send_CubridUp \<Rightarrow> [TotalScrapes_metric m, Error_metric m] @ ScrapeErrors_metrics m
      | Return \<Rightarrow>
          [TotalScrapes_metric m, Error_metric m] @ ScrapeErrors_metrics m @ [CubridUp_metric m]
      | Returned \<Rightarrow>
          [TotalScrapes_metric m, Error_metric m] @ ScrapeErrors_metrics m @ [CubridUp_metric m]
      | _ \<Rightarrow> [])"

text \<open>
  Everything \<^verbatim>\<open>scrape\<close> and its goroutines send in a cycle, as a multiset: nothing when
  the open fails; else the duration of the connection phase, and for each scraper its
  metrics and the duration of its phase.
\<close>

definition scrape_metrics :: "env \<Rightarrow> Exporter \<Rightarrow> metric multiset" where
  "scrape_metrics ev e =
     (if opens ev e
      then {#duration_metric ev ''connection''#}
           + sum_list (map (\<lambda>scr. mset (fst (scrape_result ev e scr))
                                   + {#duration_metric ev (collect_label scr)#}) (scrapers e))
      else {#})"

text \<open>The channel accounts for every metric: received, or still to be sent.\<close>

definition ch_inv :: "env \<Rightarrow> Exporter \<Rightarrow> state \<Rightarrow> bool" where
  "ch_inv ev e s \<longleftrightarrow>
     mset (ch s) + sum_list (map (\<lambda>g. mset (g_sends ev e g)) (all_goroutines ev e s))
       + mset (connection_pending ev e (pc s))
     = scrape_metrics ev e + mset (collected (pc s) (metrics s))"

text \<open>
  The exporter's own metrics during a cycle that started with the metrics \<open>m0\<close>.
  \<open>g_inc l g\<close> is 1 when the goroutine has still to increment the error counter of the
  label \<open>l\<close>.
\<close>

definition g_inc :: "env \<Rightarrow> Exporter \<Rightarrow> string \<Rightarrow> goroutine \<Rightarrow> nat" where
  "g_inc ev e l g = count_list (g_incs ev e g) l"

definition failing :: "env \<Rightarrow> Exporter \<Rightarrow> scraper \<Rightarrow> bool" where
  "failing ev e scr \<longleftrightarrow> snd (scrape_result ev e scr) \<noteq> None"

definition up_is_set :: "env \<Rightarrow> Exporter \<Rightarrow> pc \<Rightarrow> bool" where
  "up_is_set ev e p =
     (case p of
        TotalScrapes_Inc \<Rightarrow> False
      | Call_sql_Open \<Rightarrow> False
      | Log_open_error err \<Rightarrow> False
      | Error_Set_1 \<Rightarrow> False
      | SetMaxOpenConns \<Rightarrow> False
      | SetMaxIdleConns \<Rightarrow> False
      | SetConnMaxLifetime \<Rightarrow> False
      | CubridUp_Set_1 \<Rightarrow> False
      | Error_Set_0 \<Rightarrow> True
      | Send_connection_duration \<Rightarrow> True
      | wg_Add scr rest \<Rightarrow> True
      | go scr rest \<Rightarrow> True
      | wg_Wait \<Rightarrow> True
      | db_Close \<Rightarrow> True
      | _ \<Rightarrow> opens ev e)"

text \<open>
  The error gauge is 1 once a goroutine has set it, and is set by the goroutine of
  every failing scraper: 1 now, or a goroutine that will still set it, exactly when some
  scraper fails.
\<close>

definition error_foreseen :: "env \<Rightarrow> Exporter \<Rightarrow> float64 \<Rightarrow> goroutine list \<Rightarrow> bool" where
  "error_foreseen ev e err gs \<longleftrightarrow>
     (err = Fin 0 \<or> err = Fin 1)
     \<and> ((err = Fin 1 \<or> (\<exists>g\<in>set gs. g_fails ev e g))
          \<longleftrightarrow> (\<exists>scr\<in>set (scrapers e). failing ev e scr))"

text \<open>
  The error gauge by statement: untouched up to line 114 (0), set to 1 on the failed
  open (2), and as foreseen from line 114 on (1).
\<close>

definition error_phase :: "env \<Rightarrow> Exporter \<Rightarrow> pc \<Rightarrow> nat" where
  "error_phase ev e p =
     (case p of
        TotalScrapes_Inc \<Rightarrow> 0
      | Call_sql_Open \<Rightarrow> 0
      | Log_open_error err \<Rightarrow> 0
      | Error_Set_1 \<Rightarrow> 0
      | SetMaxOpenConns \<Rightarrow> 0
      | SetMaxIdleConns \<Rightarrow> 0
      | SetConnMaxLifetime \<Rightarrow> 0
      | CubridUp_Set_1 \<Rightarrow> 0
      | Error_Set_0 \<Rightarrow> 0
      | Send_connection_duration \<Rightarrow> 1
      | wg_Add scr rest \<Rightarrow> 1
      | go scr rest \<Rightarrow> 1
      | wg_Wait \<Rightarrow> 1
      | db_Close \<Rightarrow> 1
      | _ \<Rightarrow> if opens ev e then 1 else 2)"

definition error_inv :: "env \<Rightarrow> Exporter \<Rightarrow> Metrics \<Rightarrow> state \<Rightarrow> bool" where
  "error_inv ev e m0 s =
     (if error_phase ev e (pc s) = 0 then Error (metrics s) = Error m0
      else if error_phase ev e (pc s) = 1
      then error_foreseen ev e (Error (metrics s)) (all_goroutines ev e s)
      else Error (metrics s) = Fin 1)"

definition metrics_inv :: "env \<Rightarrow> Exporter \<Rightarrow> Metrics \<Rightarrow> state \<Rightarrow> bool" where
  "metrics_inv ev e m0 s \<longleftrightarrow>
     TotalScrapes (metrics s)
       = (if pc s = TotalScrapes_Inc then TotalScrapes m0 else Suc (TotalScrapes m0))
     \<and> CubridUp (metrics s) = (if up_is_set ev e (pc s) then Fin 1 else CubridUp m0)
     \<and> (\<forall>l. counter_value (ScrapeErrors (metrics s)) l
               + sum_list (map (g_inc ev e l) (all_goroutines ev e s))
             = counter_value (ScrapeErrors m0) l
               + (if opens ev e
                  then sum_list (map (\<lambda>scr. g_inc ev e l (Call_Scrape scr)) (scrapers e))
                  else 0))
     \<and> error_inv ev e m0 s"

text \<open>
  The calls on the handle. \<^verbatim>\<open>scrape\<close> opens and configures it (lines 99 to 111); then
  come the calls of the scrapers, in the order the goroutines make them; \<^verbatim>\<open>db.Close()\<close>
  is the last call.
\<close>

definition config_ops :: "db_op list" where
  "config_ops = [Op_Open, Op_SetMaxOpenConns 1, Op_SetMaxIdleConns 1,
                 Op_SetConnMaxLifetime (60 * time_Second)]"

definition scraping_ops :: "env \<Rightarrow> Exporter \<Rightarrow> state \<Rightarrow> db_op list \<Rightarrow> bool" where
  "scraping_ops ev e s ops \<longleftrightarrow>
     take 4 ops = config_ops
     \<and> mset (drop 4 ops) + sum_list (map (\<lambda>g. mset (g_ops g)) (all_goroutines ev e s))
       = mset (map (\<lambda>scr. Op_Scrape (collect_label scr)) (scrapers e))"

definition ops_inv :: "env \<Rightarrow> Exporter \<Rightarrow> state \<Rightarrow> bool" where
  "ops_inv ev e s =
     (case pc s of
        TotalScrapes_Inc \<Rightarrow> db_ops s = []
      | Call_sql_Open \<Rightarrow> db_ops s = []
      | Log_open_error err \<Rightarrow> db_ops s = [Op_Open]
      | Error_Set_1 \<Rightarrow> db_ops s = [Op_Open]
      | SetMaxOpenConns \<Rightarrow> db_ops s = take 1 config_ops
      | SetMaxIdleConns \<Rightarrow> db_ops s = take 2 config_ops
      | SetConnMaxLifetime \<Rightarrow> db_ops s = take 3 config_ops
      | CubridUp_Set_1 \<Rightarrow> db_ops s = config_ops
      | Error_Set_0 \<Rightarrow> db_ops s = config_ops
      | Send_connection_duration \<Rightarrow> db_ops s = config_ops
      | wg_Add scr rest \<Rightarrow> scraping_ops ev e s (db_ops s)
      | go scr rest \<Rightarrow> scraping_ops ev e s (db_ops s)
      | wg_Wait \<Rightarrow> scraping_ops ev e s (db_ops s)
      | db_Close \<Rightarrow> scraping_ops ev e s (db_ops s)
      | _ \<Rightarrow>
          if opens ev e
          then db_ops s \<noteq> [] \<and> last (db_ops s) = Op_Close \<and> db_conn s = Closed
               \<and> scraping_ops ev e s (butlast (db_ops s))
          else db_ops s = [Op_Open] \<and> db_conn s = NotOpened)"

text \<open>
  The number of statements a goroutine has still to run, and the same for \<^verbatim>\<open>Collect\<close>
  and \<^verbatim>\<open>scrape\<close>, the statements of the goroutines not counted.
\<close>

fun g_steps :: "env \<Rightarrow> Exporter \<Rightarrow> goroutine \<Rightarrow> nat" where
  "g_steps ev e (Call_Scrape scr) =
     length (fst (scrape_result ev e scr)) + (if snd (scrape_result ev e scr) = None then 4 else 7)"
| "g_steps ev e (Sending scr ms err) = length ms + (if err = None then 3 else 6)"
| "g_steps ev e (Log_scrape_error scr err) = 5"
| "g_steps ev e (ScrapeErrors_Inc scr) = 4"
| "g_steps ev e (Error_Set_1_scraper scr) = 3"
| "g_steps ev e (Send_duration scr) = 2"
| "g_steps ev e wg_Done = 1"
| "g_steps ev e Exited = 0"

definition m_steps :: "env \<Rightarrow> Exporter \<Rightarrow> pc \<Rightarrow> nat" where
  "m_steps ev e p =
     (case p of
        TotalScrapes_Inc \<Rightarrow> if opens ev e then 15 + 2 * length (scrapers e) else 9
      | Call_sql_Open \<Rightarrow> if opens ev e then 14 + 2 * length (scrapers e) else 8
      | Log_open_error err \<Rightarrow> 7
      | Error_Set_1 \<Rightarrow> 6
      | SetMaxOpenConns \<Rightarrow> 13 + 2 * length (scrapers e)
      | SetMaxIdleConns \<Rightarrow> 12 + 2 * length (scrapers e)
      | SetConnMaxLifetime \<Rightarrow> 11 + 2 * length (scrapers e)
      | CubridUp_Set_1 \<Rightarrow> 10 + 2 * length (scrapers e)
      | Error_Set_0 \<Rightarrow> 9 + 2 * length (scrapers e)
      | Send_connection_duration \<Rightarrow> 8 + 2 * length (scrapers e)
      | wg_Add scr rest \<Rightarrow> 9 + 2 * length rest
      | go scr rest \<Rightarrow> 8 + 2 * length rest
      | wg_Wait \<Rightarrow> 7
      | db_Close \<Rightarrow> 6
      | Send_TotalScrapes \<Rightarrow> 5
      | Send_Error \<Rightarrow> 4
      | ScrapeErrors_Collect \<Rightarrow> 3
      | Send_CubridUp \<Rightarrow> 2
      | Return \<Rightarrow> 1
      | Returned \<Rightarrow> 0)"

definition steps_left :: "env \<Rightarrow> Exporter \<Rightarrow> state \<Rightarrow> nat" where
  "steps_left ev e s =
     m_steps ev e (pc s) + sum_list (map (g_steps ev e) (all_goroutines ev e s))"

text \<open>
  A cycle whose open fails starts no goroutine, leaves the error counters alone, and
  sends nothing but what \<^verbatim>\<open>Collect\<close> sends after \<^verbatim>\<open>scrape\<close>.
\<close>

definition fail_inv :: "Metrics \<Rightarrow> state \<Rightarrow> bool" where
  "fail_inv m0 s \<longleftrightarrow>
     goroutines s = [] \<and> ScrapeErrors (metrics s) = ScrapeErrors m0
     \<and> ch s = collected (pc s) (metrics s)"

text \<open>
  The cycles of a process, one after the other. \<^verbatim>\<open>main\<close> makes the Metrics once (line 180)
  and every request works on them, so a cycle starts with the metrics the cycle before
  it left. A request is the environment of its cycle, its Exporter and the schedule of
  its cycle; the result is \<open>None\<close> when a schedule does not run its cycle to the return.
\<close>

fun cycles :: "(env \<times> Exporter \<times> nat list) list \<Rightarrow> Metrics \<Rightarrow> Metrics option" where
  "cycles [] m = Some m"
| "cycles ((ev, e, sched) # reqs) m =
     (case run ev e sched (init m) of
        None \<Rightarrow> None
      | Some s \<Rightarrow> (case pc s of Returned \<Rightarrow> cycles reqs (metrics s) | _ \<Rightarrow> None))"

section \<open>Sample inputs\<close>

text \<open>
  A parser that agrees with \<^verbatim>\<open>strconv.ParseFloat\<close> on the few texts used in the
  examples below: decimal numerals parse to their value, \<^verbatim>\<open>1e400\<close> is out of range and
  gives +Inf with \<^verbatim>\<open>ErrRange\<close>, any other text gives 0 with \<^verbatim>\<open>ErrSyntax\<close>.
\<close>

definition sample_pf :: parse_float where
  "sample_pf s =
     (if s = ''0'' then (Fin 0, None)
      else if s = ''1.0'' then (Fin 1, None)
      else if s = ''3'' then (Fin 3, None)
      else if s = ''20'' then (Fin 20, None)
      else if s = ''80'' then (Fin 80, None)
      else if s = ''-1'' then (Fin (- 1), None)
      else if s = ''1e400'' then (PInf, Some ErrRange)
      else (Fin 0, Some ErrSyntax))"

definition sample_db :: sql_db where
  "sample_db c q =
     (if q = spacedbQuery
      then Inr [[''0'', ''3'', ''PERMANENT'', ''1'', ''80'', ''20''],
                [''1'', ''3'', ''TEMPORARY'', ''1'', ''0'', ''0'']]
      else if q = brokerStatusQuery
      then Inr [[''query_editor'', ''1e400'', ''abc'', ''3'', ''0'', ''0'', ''0'', ''0'', ''0'',
                 ''0'', ''0'', ''0'', ''0'', ''0'', ''0'']]
      else if q = statdumpQuery
      then Inr [[''Num_file_creates'', ''3''], [''Num_file_removes'', ''abc''],
                [''Num_file_ioreads'', ''20'']]
      else Inl (DriverError ''syntax error''))"

text \<open>The same database with the third column of every row overwritten.\<close>

definition sample_db_purpose :: sql_db where
  "sample_db_purpose c q =
     (case sample_db c q of
        Inl err \<Rightarrow> Inl err
      | Inr rows \<Rightarrow> Inr (map (\<lambda>r. r[2 := ''abc'']) rows))"

text \<open>
  A cycle over two of the scrapers with \<open>sample_db\<close>: the statdump scraper fails on its
  second row, the broker-status scraper succeeds. \<open>sample_sched\<close> is one of its schedules: it starts
  the goroutines, lets them take turns, and returns.
\<close>

definition sample_env :: env where
  "sample_env = \<lparr>sql_Open = (\<lambda>driverName dataSourceName. Inr sample_db),
                  since = (\<lambda>label. Fin (1 / 8))\<rparr>"

definition sample_exporter :: Exporter where
  "sample_exporter =
     New RequestContext createDSN
       [ScrapeStatdump sample_pf, ScrapeBrokerStatus sample_pf]"

definition sample_sched :: "nat list" where
  "sample_sched =
     replicate 10 0 @ [1, 1, 0, 0, 2, 1, 2, 2, 1, 2, 1, 2, 1, 2, 2, 1, 1] @ replicate 11 2
       @ replicate 7 0"

text \<open>An environment in which \<^verbatim>\<open>sql.Open\<close> fails.\<close>

definition failing_env :: env where
  "failing_env = \<lparr>sql_Open = (\<lambda>driverName dataSourceName.
                       Inl (DriverError ''open failed'')),
                   since = (\<lambda>label. Fin (1 / 8))\<rparr>"


section \<open>Facts about rounding\<close>

lemma used_percentage_80_20:
  "f64_mul (f64_div (Fin 80) (f64_add (Fin 80) (Fin 20))) (Fin 100) = Fin 80"
  by code_simp

section \<open>The spacedb scraper\<close>

lemma used_percentage_20_80:
  "f64_mul (f64_div (Fin 20) (f64_add (Fin 20) (Fin 80))) (Fin 100) = Fin 20"
  by code_simp

lemma used_percentage_0_0:
  "f64_mul (f64_div (Fin 0) (f64_add (Fin 0) (Fin 0))) (Fin 100) = NaN"
  by code_simp

lemma spacedb_row_usedPercentage:
  "spacedb_row pf vol_no type_col purpose count_col used_pages free_pages ! 5 =
     ConstMetric VolNoInfo GaugeValue
       (if f64_eq (fst (pf used_pages)) (Fin 0) then Fin 0
        else f64_mul (f64_div (fst (pf used_pages))
                        (f64_add (fst (pf used_pages)) (fst (pf free_pages)))) (Fin 100))
       [vol_no, ''usedPercentage'']"
  by (simp add: spacedb_row_def Let_def)

lemma spacedb_row_usedPercentage_only:
  "filter (\<lambda>m. metric_labels m = [vol_no, ''usedPercentage''])
     (spacedb_row pf vol_no type_col purpose count_col used_pages free_pages)
   = [spacedb_row pf vol_no type_col purpose count_col used_pages free_pages ! 5]"
  by (simp add: spacedb_row_def Let_def)

text \<open>
  C5. Every spacedb row sends one sample labelled \<^verbatim>\<open>usedPercentage\<close>, the sixth of the
  row. Its value is the float64 computation \<open>used / (used + free) * 100\<close> on the parsed
  used-pages and free-pages columns, replaced by 0 whenever \<open>used == 0\<close>. So when the
  columns parse to 80 and 20 the value is 80; when both parse to 0 it is 0 and not the
  NaN that \<open>0 / (0 + 0) * 100\<close> is.
\<close>

theorem spacedb_used_percentage:
  "spacedb_row pf vol_no type_col purpose count_col used_pages free_pages ! 5
     = ConstMetric VolNoInfo GaugeValue
         (if f64_eq (fst (pf used_pages)) (Fin 0) then Fin 0
          else f64_mul (f64_div (fst (pf used_pages))
                          (f64_add (fst (pf used_pages)) (fst (pf free_pages)))) (Fin 100))
         [vol_no, ''usedPercentage'']
   \<and> filter (\<lambda>m. metric_labels m = [vol_no, ''usedPercentage''])
        (spacedb_row pf vol_no type_col purpose count_col used_pages free_pages)
      = [spacedb_row pf vol_no type_col purpose count_col used_pages free_pages ! 5]
   \<and> (fst (pf used_pages) = Fin 80 \<and> fst (pf free_pages) = Fin 20 \<longrightarrow>
      spacedb_row pf vol_no type_col purpose count_col used_pages free_pages ! 5
        = ConstMetric VolNoInfo GaugeValue (Fin 80) [vol_no, ''usedPercentage''])
   \<and> (fst (pf used_pages) = Fin 0 \<longrightarrow>
      spacedb_row pf vol_no type_col purpose count_col used_pages free_pages ! 5
        = ConstMetric VolNoInfo GaugeValue (Fin 0) [vol_no, ''usedPercentage'']
      \<and> metric_value (spacedb_row pf vol_no type_col purpose count_col used_pages free_pages ! 5)
          \<noteq> NaN)
   \<and> f64_mul (f64_div (Fin 0) (f64_add (Fin 0) (Fin 0))) (Fin 100) = NaN"
  unfolding spacedb_row_usedPercentage_only spacedb_row_usedPercentage
  using used_percentage_80_20 used_percentage_0_0
  by (auto simp del: f64_add.simps f64_mul.simps f64_div.simps)

theorem spacedb_used_percentage_witness:
  "fst (sample_pf ''80'') = Fin 80 \<and> fst (sample_pf ''20'') = Fin 20
   \<and> fst (sample_pf ''0'') = Fin 0
   \<and> spacedb_row sample_pf ''0'' ''3'' ''PERMANENT'' ''1'' ''80'' ''20'' ! 5
       = ConstMetric VolNoInfo GaugeValue (Fin 80) [''0'', ''usedPercentage'']
   \<and> spacedb_row sample_pf ''1'' ''3'' ''TEMPORARY'' ''1'' ''0'' ''0'' ! 5
       = ConstMetric VolNoInfo GaugeValue (Fin 0) [''1'', ''usedPercentage'']
   \<and> spacedb_row sample_pf ''2'' ''3'' ''PERMANENT'' ''1'' ''20'' ''80'' ! 5
       = ConstMetric VolNoInfo GaugeValue (Fin 20) [''2'', ''usedPercentage'']"
proof -
  have p: "fst (sample_pf ''80'') = Fin 80" "fst (sample_pf ''20'') = Fin 20"
    "fst (sample_pf ''0'') = Fin 0"
    by (simp_all add: sample_pf_def)
  note a = spacedb_used_percentage
    [of sample_pf "''0''" "''3''" "''PERMANENT''" "''1''" "''80''" "''20''"]
  note b = spacedb_used_percentage
    [of sample_pf "''1''" "''3''" "''TEMPORARY''" "''1''" "''0''" "''0''"]
  note c = spacedb_used_percentage
    [of sample_pf "''2''" "''3''" "''PERMANENT''" "''1''" "''20''" "''80''"]
  have ne: "\<not> f64_eq (Fin 20) (Fin 0)" by simp
  from c have "spacedb_row sample_pf ''2'' ''3'' ''PERMANENT'' ''1'' ''20'' ''80'' ! 5
       = ConstMetric VolNoInfo GaugeValue (Fin 20) [''2'', ''usedPercentage'']"
    by (simp only: p ne if_False used_percentage_20_80)
  with p a b show ?thesis by blast
qed

section \<open>The request handler\<close>

lemma filters_get_make_filters:
  "filters_get (make_filters params filters) k \<longleftrightarrow> k \<in> set params \<or> filters_get filters k"
  by (induction params arbitrary: filters) (auto simp: filters_get_def)

lemma filters_get_empty: "filters_get Map.empty k = False"
  by (simp add: filters_get_def)

lemma append_filtered_filter:
  "append_filtered filters scrs acc = acc @ filter (\<lambda>scr. filters_get filters (Name scr)) scrs"
  by (induction scrs arbitrary: acc) auto

lemma filter_scrapers_eq:
  "filter_scrapers scrs params =
     (if params = [] then scrs else filter (\<lambda>scr. Name scr \<in> set params) scrs)"
  by (simp add: filter_scrapers_def append_filtered_filter filters_get_make_filters
      filters_get_empty)

lemma newHandler_scrapers:
  "scrapers (fst (newHandler pf timeoutOffset scrs params v)) = filter_scrapers scrs params"
  by (simp add: newHandler_def New_def split: prod.splits)

lemma newHandler_log:
  "snd (newHandler pf timeoutOffset scrs params v) =
     snd (request_context pf timeoutOffset v) @ [CollectQuery params]"
  by (simp add: newHandler_def split: prod.splits)


lemma registry_names:
  "Name (ScrapeBrokerStatus pf) = ''broker_status''" "Name (ScrapeStatdump pf) = ''statdump''"
  "Name (ScrapeSpaceDBStatus pf) = ''spacedb''"
  by (simp_all add: ScrapeStatdump_def ScrapeBrokerStatus_def ScrapeSpaceDBStatus_def
      statdump_def brokerStatus_def spacedbStatus_def)

lemma enabledScrapers_set:
  "set (enabledScrapers (scraperFlags flags m))
     = {scr. \<exists>enabledByDefault. (scr, enabledByDefault) \<in> set m
             \<and> (case map_of flags (''collect.'' @ Name scr) of
                  None \<Rightarrow> enabledByDefault | Some enabled \<Rightarrow> enabled)}"
  by (force simp: enabledScrapers_def scraperFlags_def)

lemma enabledScrapers_registry:
  "enabledScrapers (scraperFlags flags (scrapers_map pf))
     = filter (\<lambda>scr. map_of flags (''collect.'' @ Name scr) \<noteq> Some False)
         [ScrapeBrokerStatus pf, ScrapeStatdump pf, ScrapeSpaceDBStatus pf]"
  by (auto simp: enabledScrapers_def scraperFlags_def scrapers_map_def split: option.splits)

lemma enabledScrapers_names:
  "Name ` set (enabledScrapers (scraperFlags flags (scrapers_map pf)))
     = {n \<in> {''broker_status'', ''statdump'', ''spacedb''}.
          map_of flags (''collect.'' @ n) \<noteq> Some False}"
  unfolding enabledScrapers_registry by (auto simp: registry_names)

lemma enabledScrapers_distinct:
  "distinct (map Name (enabledScrapers (scraperFlags flags (scrapers_map pf))))"
  unfolding enabledScrapers_registry
  by (rule distinct_map_filter) (simp add: registry_names)

text \<open>
  C2, amended. The handler is built with the scrapers enabled at start-up: the scrapers
  of the registry whose flag \<^verbatim>\<open>--collect.<name>\<close> is on, in any order (the flag's default
  is the entry of the registry, which is on for all three). The scrapers of a cycle are
  those of them whose name is among the \<^verbatim>\<open>collect[]\<close> parameters, each once; with no
  parameter, all of them. A requested name that no enabled scraper has selects nothing
  and adds nothing to the log. When no flag turns a scraper off, the names run are the
  requested names intersected with the registered ones, and the three default-enabled
  scrapers for an empty request.
\<close>

theorem collect_params_select_scrapers:
  assumes "mset scrs = mset (enabledScrapers (scraperFlags flags (scrapers_map pf)))"
  shows "scrapers (fst (newHandler pf timeoutOffset scrs params v))
        = (if params = [] then scrs else filter (\<lambda>scr. Name scr \<in> set params) scrs)
    \<and> set (scrapers (fst (newHandler pf timeoutOffset scrs params v)))
        = {scr. \<exists>enabledByDefault. (scr, enabledByDefault) \<in> set (scrapers_map pf)
                \<and> (case map_of flags (''collect.'' @ Name scr) of
                     None \<Rightarrow> enabledByDefault | Some enabled \<Rightarrow> enabled)
                \<and> (params = [] \<or> Name scr \<in> set params)}
    \<and> Name ` set (scrapers (fst (newHandler pf timeoutOffset scrs params v)))
        = {n \<in> {''broker_status'', ''statdump'', ''spacedb''}.
             map_of flags (''collect.'' @ n) \<noteq> Some False \<and> (params = [] \<or> n \<in> set params)}
    \<and> distinct (map Name (scrapers (fst (newHandler pf timeoutOffset scrs params v))))
    \<and> snd (newHandler pf timeoutOffset scrs params v)
        = snd (request_context pf timeoutOffset v) @ [CollectQuery params]
    \<and> ((\<forall>n. map_of flags (''collect.'' @ n) \<noteq> Some False) \<longrightarrow>
         Name ` set (scrapers (fst (newHandler pf timeoutOffset scrs params v)))
           = (if params = [] then Name ` fst ` {x \<in> set (scrapers_map pf). snd x}
              else set params \<inter> Name ` fst ` set (scrapers_map pf)))"
proof -
  let ?E = "enabledScrapers (scraperFlags flags (scrapers_map pf))"
  let ?run = "scrapers (fst (newHandler pf timeoutOffset scrs params v))"
  from assms have s: "set scrs = set ?E" by (rule mset_eq_setD)
  from assms have "mset (map Name scrs) = mset (map Name ?E)" by simp
  with enabledScrapers_distinct [of flags pf] have d: "distinct (map Name scrs)"
    by (metis mset_eq_imp_distinct_iff)
  have 1: "?run = (if params = [] then scrs else filter (\<lambda>scr. Name scr \<in> set params) scrs)"
    by (simp add: newHandler_scrapers filter_scrapers_eq)
  then have r: "set ?run = {scr \<in> set ?E. params = [] \<or> Name scr \<in> set params}"
    using s by auto
  have 2: "set ?run
        = {scr. \<exists>enabledByDefault. (scr, enabledByDefault) \<in> set (scrapers_map pf)
                \<and> (case map_of flags (''collect.'' @ Name scr) of
                     None \<Rightarrow> enabledByDefault | Some enabled \<Rightarrow> enabled)
                \<and> (params = [] \<or> Name scr \<in> set params)}"
    unfolding r enabledScrapers_set by blast
  have "Name ` set ?run = {n \<in> Name ` set ?E. params = [] \<or> n \<in> set params}"
    unfolding r by blast
  then have 3: "Name ` set ?run
        = {n \<in> {''broker_status'', ''statdump'', ''spacedb''}.
             map_of flags (''collect.'' @ n) \<noteq> Some False \<and> (params = [] \<or> n \<in> set params)}"
    unfolding enabledScrapers_names by blast
  have 4: "distinct (map Name ?run)"
    unfolding 1 using d by (simp add: distinct_map_filter)
  have 5: "snd (newHandler pf timeoutOffset scrs params v)
        = snd (request_context pf timeoutOffset v) @ [CollectQuery params]"
    by (rule newHandler_log)
  have on: "{x \<in> set (scrapers_map pf). snd x} = set (scrapers_map pf)"
    by (auto simp: scrapers_map_def)
  have reg: "Name ` fst ` set (scrapers_map pf) = {''broker_status'', ''statdump'', ''spacedb''}"
    by (simp add: scrapers_map_def registry_names)
  have 6: "Name ` set ?run
           = (if params = [] then Name ` fst ` {x \<in> set (scrapers_map pf). snd x}
              else set params \<inter> Name ` fst ` set (scrapers_map pf))"
    if "\<forall>n. map_of flags (''collect.'' @ n) \<noteq> Some False"
    unfolding 3 on reg using that by auto
  from 1 2 3 4 5 6 show ?thesis by blast
qed

theorem collect_params_select_scrapers_witness:
  "Name ` set (scrapers (fst (handlerFunc sample_pf (Fin (1 / 4)) [] [''statdump'', ''nosuch''] [])))
       = {''statdump''}
   \<and> snd (handlerFunc sample_pf (Fin (1 / 4)) [] [''statdump'', ''nosuch''] [])
       = [CollectQuery [''statdump'', ''nosuch'']]
   \<and> Name ` set (scrapers (fst (handlerFunc sample_pf (Fin (1 / 4)) [] [] [])))
       = {''broker_status'', ''statdump'', ''spacedb''}
   \<and> Name ` set (scrapers (fst (handlerFunc sample_pf (Fin (1 / 4))
          [(''collect.spacedb'', False)] [''spacedb'', ''statdump''] [])))
       = {''statdump''}"
proof -
  note a = collect_params_select_scrapers [where flags = "[]" and pf = sample_pf
      and timeoutOffset = "Fin (1 / 4)" and params = "[''statdump'', ''nosuch'']" and v = "[]",
      OF refl, folded handlerFunc_def]
  note b = collect_params_select_scrapers [where flags = "[]" and pf = sample_pf
      and timeoutOffset = "Fin (1 / 4)" and params = "[]" and v = "[]",
      OF refl, folded handlerFunc_def]
  note c = collect_params_select_scrapers [where flags = "[(''collect.spacedb'', False)]"
      and pf = sample_pf and timeoutOffset = "Fin (1 / 4)"
      and params = "[''spacedb'', ''statdump'']" and v = "[]",
      OF refl, folded handlerFunc_def]
  note a3 = a [THEN conjunct2, THEN conjunct2, THEN conjunct1]
  note a5 = a [THEN conjunct2, THEN conjunct2, THEN conjunct2, THEN conjunct2, THEN conjunct1]
  note b3 = b [THEN conjunct2, THEN conjunct2, THEN conjunct1]
  note c3 = c [THEN conjunct2, THEN conjunct2, THEN conjunct1]
  have 1: "Name ` set (scrapers (fst (handlerFunc sample_pf (Fin (1 / 4)) []
        [''statdump'', ''nosuch''] []))) = {''statdump''}"
    unfolding a3 by auto
  have 2: "snd (handlerFunc sample_pf (Fin (1 / 4)) [] [''statdump'', ''nosuch''] [])
       = [CollectQuery [''statdump'', ''nosuch'']]"
    unfolding a5 by (simp add: request_context_def)
  have 3: "Name ` set (scrapers (fst (handlerFunc sample_pf (Fin (1 / 4)) [] [] [])))
       = {''broker_status'', ''statdump'', ''spacedb''}"
    unfolding b3 by auto
  have 4: "Name ` set (scrapers (fst (handlerFunc sample_pf (Fin (1 / 4))
          [(''collect.spacedb'', False)] [''spacedb'', ''statdump''] [])))
       = {''statdump''}"
    unfolding c3 by auto
  from 1 2 3 4 show ?thesis by blast
qed

text \<open>
  Started with \<^verbatim>\<open>--no-collect.statdump\<close>, the exporter runs nothing for the request
  \<^verbatim>\<open>collect[]=statdump\<close>, though \<^verbatim>\<open>statdump\<close> is registered, and two scrapers for a request
  without parameters, though all three are enabled by default.
\<close>

theorem disabled_scraper_not_run_counterexample:
  "map Name (map fst (scrapers_map sample_pf)) = [''broker_status'', ''statdump'', ''spacedb'']
   \<and> map snd (scrapers_map sample_pf) = [True, True, True]
   \<and> map Name (scrapers (fst (handlerFunc sample_pf (Fin (1 / 4))
          [(''collect.statdump'', False)] [''statdump''] [])))
       = []
   \<and> map Name (scrapers (fst (handlerFunc sample_pf (Fin (1 / 4))
          [(''collect.statdump'', False)] [] [])))
       = [''broker_status'', ''spacedb'']"
proof -
  have r: "map Name (map fst (scrapers_map sample_pf)) = [''broker_status'', ''statdump'', ''spacedb'']"
    "map snd (scrapers_map sample_pf) = [True, True, True]"
    by (simp_all add: scrapers_map_def registry_names)
  have e: "enabledScrapers (scraperFlags [(''collect.statdump'', False)] (scrapers_map sample_pf))
      = [ScrapeBrokerStatus sample_pf, ScrapeSpaceDBStatus sample_pf]"
    by (simp add: enabledScrapers_registry registry_names)
  have c1: "map Name (scrapers (fst (handlerFunc sample_pf (Fin (1 / 4))
          [(''collect.statdump'', False)] [''statdump''] []))) = []"
    by (simp add: handlerFunc_def newHandler_scrapers filter_scrapers_eq e registry_names)
  have c2: "map Name (scrapers (fst (handlerFunc sample_pf (Fin (1 / 4))
          [(''collect.statdump'', False)] [] []))) = [''broker_status'', ''spacedb'']"
    by (simp add: handlerFunc_def newHandler_scrapers filter_scrapers_eq e registry_names)
  show ?thesis
    by (intro conjI r c1 c2)
qed













lemma request_context_malformed:
  "v \<noteq> [] \<Longrightarrow> pf v = (t, Some err) \<Longrightarrow>
   request_context pf timeoutOffset v = (RequestContext, [FailedToParseTimeout (NumError v err)])"
  by (simp add: request_context_def)

lemma request_context_absent:
  "request_context pf timeoutOffset [] = (RequestContext, [])"
  by (simp add: request_context_def)






text \<open>
  C8. A timeout header that is present and does not parse is logged and otherwise
  ignored: the context of the cycle is the request's context, without a timeout, and
  the Exporter of the cycle is the one a request without the header gets.
\<close>

theorem malformed_timeout_header_ignored:
  "v \<noteq> [] \<Longrightarrow> pf v = (t, Some err) \<Longrightarrow>
   newHandler pf timeoutOffset scrs params v
     = (New RequestContext createDSN (filter_scrapers scrs params),
        [FailedToParseTimeout (NumError v err), CollectQuery params])
   \<and> fst (newHandler pf timeoutOffset scrs params v)
     = fst (newHandler pf timeoutOffset scrs params [])"
  by (simp add: newHandler_def request_context_malformed request_context_absent)

theorem malformed_timeout_header_ignored_witness:
  "''abc'' \<noteq> [] \<and> sample_pf ''abc'' = (Fin 0, Some ErrSyntax)
   \<and> newHandler sample_pf (Fin (1 / 4)) [] [] ''abc''
     = (New RequestContext createDSN [],
        [FailedToParseTimeout (NumError ''abc'' ErrSyntax), CollectQuery []])
   \<and> fst (newHandler sample_pf (Fin (1 / 4)) [] [] ''abc'')
     = fst (newHandler sample_pf (Fin (1 / 4)) [] [] [])"
proof -
  have p: "''abc'' \<noteq> []" "sample_pf ''abc'' = (Fin 0, Some ErrSyntax)"
    by (simp_all add: sample_pf_def)
  have f: "filter_scrapers [] [] = []"
    by (simp add: filter_scrapers_def)
  note m = malformed_timeout_header_ignored
    [where pf = sample_pf, OF p, of "Fin (1 / 4)" "[]" "[]", unfolded f]
  from p m show ?thesis by blast
qed

section \<open>Parse failures in the scrapers\<close>

lemma broker_row_values:
  "length cols = 14 \<Longrightarrow>
   map metric_value (broker_row pf broker_name cols) = map (\<lambda>col. fst (pf col)) cols"
  by (auto simp: numeral_eq_Suc length_Suc_conv broker_row_def broker_metric_def)

lemma broker_row_length:
  "length cols = 14 \<Longrightarrow> length (broker_row pf broker_name cols) = 14"
  by (auto simp: numeral_eq_Suc length_Suc_conv broker_row_def)

lemma broker_rows_all:
  "\<forall>r\<in>set rows. length r = 15 \<Longrightarrow>
   broker_rows pf rows = (concat (map (\<lambda>r. broker_row pf (hd r) (tl r)) rows), None)"
  by (induction rows) auto

lemma spacedb_rows_all:
  "\<forall>r\<in>set rows. length r = 6 \<Longrightarrow>
   spacedb_rows pf rows
     = (concat (map (\<lambda>r. spacedb_row pf (r ! 0) (r ! 1) (r ! 2) (r ! 3) (r ! 4) (r ! 5)) rows),
        None)"
proof (induction rows)
  case Nil
  then show ?case by simp
next
  case (Cons r rows)
  then have "length r = 6" by simp
  then obtain a b c d e f where "r = [a, b, c, d, e, f]"
    by (auto simp: numeral_eq_Suc length_Suc_conv)
  with Cons show ?case by simp
qed

lemma statdump_rows_parse_failure:
  "[key, val] \<in> set rows \<Longrightarrow> snd (pf val) \<noteq> None \<Longrightarrow> snd (statdump_rows pf rows) \<noteq> None"
proof (induction rows)
  case Nil
  then show ?case by simp
next
  case (Cons r rows)
  show ?case
  proof (cases "r = [key, val]")
    case True
    with Cons.prems show ?thesis by (auto split: prod.splits option.splits)
  next
    case False
    with Cons have "snd (statdump_rows pf rows) \<noteq> None" by simp
    then show ?thesis
      by (auto split: list.splits prod.splits option.splits)
  qed
qed

lemma statdump_rows_first_failure:
  "\<forall>r\<in>set good. length r = 2 \<and> snd (pf (r ! 1)) = None \<Longrightarrow> pf val = (x, Some err) \<Longrightarrow>
   statdump_rows pf (good @ [key, val] # rest)
     = (map (\<lambda>r. ConstMetric StatdumpInfo GaugeValue (fst (pf (r ! 1))) [r ! 0]) good,
        Some (NumError val err))"
proof (induction good)
  case Nil
  then show ?case by simp
next
  case (Cons r good)
  then have "length r = 2" by simp
  then obtain k v where r: "r = [k, v]"
    by (auto simp: numeral_eq_Suc length_Suc_conv)
  with Cons.prems have "snd (pf v) = None" by simp
  with r Cons show ?case by (auto split: prod.splits)
qed

text \<open>
  C9, amended. In the statdump scraper a value that fails to parse makes Scrape return an
  error: the \<^verbatim>\<open>*NumError\<close> of the first such row, after the metrics of the rows before
  it. In the broker-status and spacedb scrapers no parse error is looked at: every
  numeric column is sent with the value ParseFloat returned for it, with or without an
  error (0 next to a syntax error, an infinity next to a range error), and a query
  whose rows have the right number of columns is scraped to the end without error.
\<close>

theorem parse_failure_policy:
  "(db c statdumpQuery = Inr vrows \<and> [key, val] \<in> set vrows \<and> snd (pf val) \<noteq> None \<longrightarrow>
      snd (ScrapeStatdump_Scrape pf c db) \<noteq> None)
   \<and> ((\<forall>r\<in>set good. length r = 2 \<and> snd (pf (r ! 1)) = None) \<and> pf val = (x, Some err)
        \<and> db c statdumpQuery = Inr (good @ [key, val] # rest) \<longrightarrow>
      ScrapeStatdump_Scrape pf c db
        = (map (\<lambda>r. ConstMetric StatdumpInfo GaugeValue (fst (pf (r ! 1))) [r ! 0]) good,
           Some (NumError val err)))
   \<and> (length cols = 14 \<longrightarrow>
        map metric_value (broker_row pf broker_name cols) = map (\<lambda>col. fst (pf col)) cols)
   \<and> (db c brokerStatusQuery = Inr brows \<and> (\<forall>r\<in>set brows. length r = 15) \<longrightarrow>
        ScrapeBrokerStatus_Scrape pf c db
          = (concat (map (\<lambda>r. broker_row pf (hd r) (tl r)) brows), None))
   \<and> map metric_value
         (take 5 (spacedb_row pf vol_no type_col purpose count_col used_pages free_pages))
       = [fst (pf type_col), fst (pf type_col), fst (pf count_col), fst (pf used_pages),
          fst (pf free_pages)]
   \<and> (db c spacedbQuery = Inr srows \<and> (\<forall>r\<in>set srows. length r = 6) \<longrightarrow>
        ScrapeSpaceDBStatus_Scrape pf c db
          = (concat (map (\<lambda>r. spacedb_row pf (r ! 0) (r ! 1) (r ! 2) (r ! 3) (r ! 4) (r ! 5))
               srows), None))"
proof (intro conjI impI)
  assume "db c statdumpQuery = Inr vrows \<and> [key, val] \<in> set vrows \<and> snd (pf val) \<noteq> None"
  then have a: "[key, val] \<in> set vrows" "snd (pf val) \<noteq> None"
    and q: "db c statdumpQuery = Inr vrows"
    by simp_all
  from statdump_rows_parse_failure [where pf = pf, OF a] q
  show "snd (ScrapeStatdump_Scrape pf c db) \<noteq> None"
    by (simp add: ScrapeStatdump_Scrape_def)
next
  assume "(\<forall>r\<in>set good. length r = 2 \<and> snd (pf (r ! 1)) = None) \<and> pf val = (x, Some err)
        \<and> db c statdumpQuery = Inr (good @ [key, val] # rest)"
  then show "ScrapeStatdump_Scrape pf c db
        = (map (\<lambda>r. ConstMetric StatdumpInfo GaugeValue (fst (pf (r ! 1))) [r ! 0]) good,
           Some (NumError val err))"
    by (simp add: ScrapeStatdump_Scrape_def statdump_rows_first_failure)
next
  assume "length cols = 14"
  then show "map metric_value (broker_row pf broker_name cols) = map (\<lambda>col. fst (pf col)) cols"
    by (rule broker_row_values)
next
  assume "db c brokerStatusQuery = Inr brows \<and> (\<forall>r\<in>set brows. length r = 15)"
  then show "ScrapeBrokerStatus_Scrape pf c db
          = (concat (map (\<lambda>r. broker_row pf (hd r) (tl r)) brows), None)"
    by (simp add: ScrapeBrokerStatus_Scrape_def broker_rows_all)
next
  show "map metric_value
         (take 5 (spacedb_row pf vol_no type_col purpose count_col used_pages free_pages))
       = [fst (pf type_col), fst (pf type_col), fst (pf count_col), fst (pf used_pages),
          fst (pf free_pages)]"
    by (simp add: spacedb_row_def Let_def)
next
  assume "db c spacedbQuery = Inr srows \<and> (\<forall>r\<in>set srows. length r = 6)"
  then show "ScrapeSpaceDBStatus_Scrape pf c db
          = (concat (map (\<lambda>r. spacedb_row pf (r ! 0) (r ! 1) (r ! 2) (r ! 3) (r ! 4) (r ! 5))
               srows), None)"
    by (simp add: ScrapeSpaceDBStatus_Scrape_def spacedb_rows_all)
qed

lemma sample_db_queries:
  "sample_db c spacedbQuery
     = Inr [[''0'', ''3'', ''PERMANENT'', ''1'', ''80'', ''20''],
            [''1'', ''3'', ''TEMPORARY'', ''1'', ''0'', ''0'']]"
  "sample_db c brokerStatusQuery
     = Inr [[''query_editor'', ''1e400'', ''abc'', ''3'', ''0'', ''0'', ''0'', ''0'', ''0'',
             ''0'', ''0'', ''0'', ''0'', ''0'', ''0'']]"
  "sample_db c statdumpQuery
     = Inr ([[''Num_file_creates'', ''3'']] @ [''Num_file_removes'', ''abc'']
            # [[''Num_file_ioreads'', ''20'']])"
  by (simp_all add: sample_db_def spacedbQuery_def brokerStatusQuery_def statdumpQuery_def)

lemma sample_pf_values:
  "sample_pf ''0'' = (Fin 0, None)"
  "sample_pf ''3'' = (Fin 3, None)"
  "sample_pf ''20'' = (Fin 20, None)"
  "sample_pf ''80'' = (Fin 80, None)"
  "sample_pf ''1e400'' = (PInf, Some ErrRange)"
  "sample_pf ''abc'' = (Fin 0, Some ErrSyntax)"
  by (simp_all add: sample_pf_def)

lemma spacedb_row_length:
  "length (spacedb_row pf vol_no type_col purpose count_col used_pages free_pages) = 6"
  by (simp add: spacedb_row_def Let_def)

theorem parse_failure_policy_witness:
  "sample_pf ''abc'' = (Fin 0, Some ErrSyntax) \<and> sample_pf ''1e400'' = (PInf, Some ErrRange)
   \<and> ScrapeStatdump_Scrape sample_pf RequestContext sample_db
       = ([ConstMetric StatdumpInfo GaugeValue (Fin 3) [''Num_file_creates'']],
          Some (NumError ''abc'' ErrSyntax))
   \<and> snd (ScrapeBrokerStatus_Scrape sample_pf RequestContext sample_db) = None
   \<and> map metric_value (fst (ScrapeBrokerStatus_Scrape sample_pf RequestContext sample_db))
       = [PInf, Fin 0, Fin 3, Fin 0, Fin 0, Fin 0, Fin 0, Fin 0, Fin 0, Fin 0, Fin 0, Fin 0,
          Fin 0, Fin 0]
   \<and> snd (ScrapeSpaceDBStatus_Scrape sample_pf RequestContext sample_db) = None
   \<and> length (fst (ScrapeSpaceDBStatus_Scrape sample_pf RequestContext sample_db)) = 12"
proof -
  note t = parse_failure_policy [where pf = sample_pf and db = sample_db and c = RequestContext
      and good = "[[''Num_file_creates'', ''3'']]" and key = "''Num_file_removes''"
      and val = "''abc''" and rest = "[[''Num_file_ioreads'', ''20'']]"
      and x = "Fin 0" and err = ErrSyntax
      and vrows = "[[''Num_file_creates'', ''3'']] @ [''Num_file_removes'', ''abc'']
            # [[''Num_file_ioreads'', ''20'']]"
      and cols = "[''1e400'', ''abc'', ''3'', ''0'', ''0'', ''0'', ''0'', ''0'',
             ''0'', ''0'', ''0'', ''0'', ''0'', ''0'']" and broker_name = "''query_editor''"
      and brows = "[[''query_editor'', ''1e400'', ''abc'', ''3'', ''0'', ''0'', ''0'', ''0'', ''0'',
             ''0'', ''0'', ''0'', ''0'', ''0'', ''0'']]"
      and srows = "[[''0'', ''3'', ''PERMANENT'', ''1'', ''80'', ''20''],
            [''1'', ''3'', ''TEMPORARY'', ''1'', ''0'', ''0'']]"]
  from t show ?thesis
    by (simp add: sample_db_queries sample_pf_values spacedb_row_length)
qed

text \<open>
  A column that fails to parse is not always sent as 0: \<^verbatim>\<open>1e400\<close> is out of range,
  ParseFloat returns +Inf with its error, and the broker-status scraper sends +Inf.
\<close>

theorem parse_failure_not_zero_counterexample:
  "snd (sample_pf ''1e400'') = Some ErrRange
   \<and> snd (ScrapeBrokerStatus_Scrape sample_pf RequestContext sample_db) = None
   \<and> fst (ScrapeBrokerStatus_Scrape sample_pf RequestContext sample_db) ! 0
       = ConstMetric BrokerInfo GaugeValue PInf [''query_editor'', ''num_as'']
   \<and> PInf \<noteq> Fin 0"
  by (simp add: ScrapeBrokerStatus_Scrape_def sample_db_queries sample_pf_values
      broker_row_def broker_metric_def)

section \<open>The purpose column of spacedb\<close>

lemma spacedb_rows_Cons_good:
  "spacedb_rows pf ([a, b, c, d, e, f] # rs)
     = (spacedb_row pf a b c d e f @ fst (spacedb_rows pf rs), snd (spacedb_rows pf rs))"
  by (simp split: prod.splits)

lemma spacedb_rows_Cons_bad:
  "length r \<noteq> 6 \<Longrightarrow> spacedb_rows pf (r # rs) = ([], Some (ScanError (length r) 6))"
  by (auto split: list.splits)

lemma spacedb_row_purpose_irrelevant:
  "spacedb_row pf vol_no type_col purpose count_col used_pages free_pages
     = spacedb_row pf vol_no type_col purpose' count_col used_pages free_pages"
  by (simp add: spacedb_row_def)

lemma spacedb_rows_purpose_irrelevant:
  "spacedb_rows pf (map (\<lambda>r. r[2 := g r]) rows) = spacedb_rows pf rows"
proof (induction rows)
  case Nil
  then show ?case by simp
next
  case (Cons r rows)
  show ?case
  proof (cases "length r = 6")
    case True
    then obtain a b c d e f where r: "r = [a, b, c, d, e, f]"
      by (auto simp: numeral_eq_Suc length_Suc_conv)
    have "r[2 := g r] = [a, b, g r, d, e, f]"
      by (simp add: r numeral_2_eq_2)
    with Cons r show ?thesis
      by (simp add: spacedb_rows_Cons_good spacedb_row_def del: spacedb_rows.simps)
  next
    case False
    then show ?thesis
      by (simp add: spacedb_rows_Cons_bad del: spacedb_rows.simps)
  qed
qed

text \<open>
  C10. In every spacedb row the first two samples, labelled \<^verbatim>\<open>_type\<close> and \<^verbatim>\<open>purpose\<close>,
  both carry the parse of the type column, and the sample labelled \<^verbatim>\<open>purpose\<close> is the
  only one with that label. The purpose column itself never reaches the output: the
  result of the scrape stays the same whatever text replaces it in any row.
\<close>

theorem spacedb_purpose_sample_is_type:
  "spacedb_row pf vol_no type_col purpose count_col used_pages free_pages ! 0
     = ConstMetric VolNoInfo GaugeValue (fst (pf type_col)) [vol_no, ''_type'']
   \<and> filter (\<lambda>m. metric_labels m ! 1 = ''purpose'')
        (spacedb_row pf vol_no type_col purpose count_col used_pages free_pages)
     = [ConstMetric VolNoInfo GaugeValue (fst (pf type_col)) [vol_no, ''purpose'']]
   \<and> spacedb_row pf vol_no type_col purpose count_col used_pages free_pages
     = spacedb_row pf vol_no type_col purpose' count_col used_pages free_pages
   \<and> spacedb_rows pf (map (\<lambda>r. r[2 := g r]) rows) = spacedb_rows pf rows
   \<and> (db c spacedbQuery = Inr rows \<and> db' c spacedbQuery = Inr (map (\<lambda>r. r[2 := g r]) rows) \<longrightarrow>
        ScrapeSpaceDBStatus_Scrape pf c db' = ScrapeSpaceDBStatus_Scrape pf c db)"
proof (intro conjI impI)
  show "spacedb_rows pf (map (\<lambda>r. r[2 := g r]) rows) = spacedb_rows pf rows"
    by (rule spacedb_rows_purpose_irrelevant)
  show "spacedb_row pf vol_no type_col purpose count_col used_pages free_pages
     = spacedb_row pf vol_no type_col purpose' count_col used_pages free_pages"
    by (rule spacedb_row_purpose_irrelevant)
  assume "db c spacedbQuery = Inr rows \<and> db' c spacedbQuery = Inr (map (\<lambda>r. r[2 := g r]) rows)"
  then show "ScrapeSpaceDBStatus_Scrape pf c db' = ScrapeSpaceDBStatus_Scrape pf c db"
    by (simp add: ScrapeSpaceDBStatus_Scrape_def spacedb_rows_purpose_irrelevant)
qed (simp_all add: spacedb_row_def Let_def)

theorem spacedb_purpose_sample_is_type_witness:
  "sample_db RequestContext spacedbQuery
     = Inr [[''0'', ''3'', ''PERMANENT'', ''1'', ''80'', ''20''],
            [''1'', ''3'', ''TEMPORARY'', ''1'', ''0'', ''0'']]
   \<and> sample_db_purpose RequestContext spacedbQuery
     = Inr [[''0'', ''3'', ''abc'', ''1'', ''80'', ''20''],
            [''1'', ''3'', ''abc'', ''1'', ''0'', ''0'']]
   \<and> ScrapeSpaceDBStatus_Scrape sample_pf RequestContext sample_db_purpose
     = ScrapeSpaceDBStatus_Scrape sample_pf RequestContext sample_db
   \<and> spacedb_row sample_pf ''0'' ''3'' ''PERMANENT'' ''1'' ''80'' ''20'' ! 1
     = ConstMetric VolNoInfo GaugeValue (Fin 3) [''0'', ''purpose'']"
proof -
  have q: "sample_db RequestContext spacedbQuery
     = Inr [[''0'', ''3'', ''PERMANENT'', ''1'', ''80'', ''20''],
            [''1'', ''3'', ''TEMPORARY'', ''1'', ''0'', ''0'']]"
    by (rule sample_db_queries)
  have q': "sample_db_purpose RequestContext spacedbQuery
     = Inr (map (\<lambda>r. r[2 := ''abc''])
              [[''0'', ''3'', ''PERMANENT'', ''1'', ''80'', ''20''],
               [''1'', ''3'', ''TEMPORARY'', ''1'', ''0'', ''0'']])"
    by (simp add: sample_db_purpose_def q)
  have q'': "sample_db_purpose RequestContext spacedbQuery
     = Inr [[''0'', ''3'', ''abc'', ''1'', ''80'', ''20''],
            [''1'', ''3'', ''abc'', ''1'', ''0'', ''0'']]"
    by (simp add: q' numeral_2_eq_2)
  have r: "spacedb_row sample_pf ''0'' ''3'' ''PERMANENT'' ''1'' ''80'' ''20'' ! 1
     = ConstMetric VolNoInfo GaugeValue (Fin 3) [''0'', ''purpose'']"
    by (simp add: spacedb_row_def Let_def sample_pf_values)
  note t = spacedb_purpose_sample_is_type [where pf = sample_pf and db = sample_db
      and c = RequestContext and g = "\<lambda>r. ''abc''" and db' = sample_db_purpose
      and rows = "[[''0'', ''3'', ''PERMANENT'', ''1'', ''80'', ''20''],
            [''1'', ''3'', ''TEMPORARY'', ''1'', ''0'', ''0'']]"]
  from t q q' have "ScrapeSpaceDBStatus_Scrape sample_pf RequestContext sample_db_purpose
     = ScrapeSpaceDBStatus_Scrape sample_pf RequestContext sample_db"
    by blast
  with q q'' r show ?thesis by blast
qed

section \<open>Safety of a cycle\<close>

lemma sum_list_map_update:
  fixes f :: "'a \<Rightarrow> 'b::comm_monoid_add"
  shows "i < length xs \<Longrightarrow> sum_list (map f (xs[i := y])) + f (xs ! i) = sum_list (map f xs) + f y"
proof (induction xs arbitrary: i)
  case Nil
  then show ?case by simp
next
  case (Cons x xs)
  show ?case
  proof (cases i)
    case 0
    then show ?thesis by (simp add: ac_simps)
  next
    case (Suc j)
    with Cons.prems have "j < length xs" by simp
    from Cons.IH [OF this] Suc show ?thesis
      by (simp add: ac_simps)
  qed
qed

lemma send_open: "\<not> ch_closed s \<Longrightarrow> send m s = s\<lparr>ch := ch s @ [m]\<rparr>"
  by (simp add: send_def)

lemma fold_send_open:
  "\<not> ch_closed s \<Longrightarrow> fold send ms s = s\<lparr>ch := ch s @ ms\<rparr>"
  by (induction ms arbitrary: s) (simp_all add: send_open)

lemma unfinished_0_iff: "unfinished s = 0 \<longleftrightarrow> (\<forall>g\<in>set (goroutines s). g = Exited)"
  by (auto simp: unfinished_def running_def)

lemma safe_init: "safe ev e (init m)"
  by (simp add: safe_def init_def quiet_def)

lemma safe_main_step:
  assumes "safe ev e s" and "main_step ev e s = Some s'"
  shows "safe ev e s'"
proof (cases "pc s")
  case Call_sql_Open
  with assms show ?thesis
    by (auto simp: safe_def main_step_def quiet_def is_open_def split: sum.splits)
next
  case Send_connection_duration
  with assms show ?thesis
    by (auto simp: safe_def main_step_def quiet_def is_open_def send_open range_scrapers_def
        unfinished_def split: list.splits)
next
  case (go scr rest)
  with assms show ?thesis
    by (auto simp: safe_def main_step_def is_open_def range_scrapers_def unfinished_def
        running_def split: list.splits)
next
  case wg_Wait
  with assms show ?thesis
    by (auto simp: safe_def main_step_def is_open_def joined_def unfinished_def split: if_splits)
next
  case ScrapeErrors_Collect
  with assms show ?thesis
    by (auto simp: safe_def main_step_def is_open_def joined_def fold_send_open unfinished_def)
qed (use assms in \<open>auto simp: safe_def main_step_def quiet_def is_open_def joined_def send_open
      unfinished_def\<close>)
lemma goroutine_step_frame:
  assumes "goroutine_step ev e g s = Some (g', s1)"
  shows "pc s1 = pc s" and "goroutines s1 = goroutines s" and "db_conn s1 = db_conn s"
    and "ch_closed s1 = ch_closed s" and "g \<noteq> Exited"
    and "wg s1 = (if g = wg_Done then wg s - 1 else wg s)"
    and "g' = Exited \<longleftrightarrow> g = wg_Done"
    and "\<not> ch_closed s \<Longrightarrow> panicked s1 \<longleftrightarrow> panicked s \<or> (g = wg_Done \<and> wg s - 1 < 0)"
  using assms
  by (auto simp: goroutine_step_def send_def split: goroutine.splits list.splits option.splits
      prod.splits if_splits)

lemma unfinished_update:
  assumes "i < length (goroutines s)" and "goroutines s1 = goroutines s"
  shows "unfinished (s1\<lparr>goroutines := (goroutines s1)[i := g']\<rparr>) + running (goroutines s ! i)
           = unfinished s + running g'"
  using assms sum_list_map_update [of i "goroutines s" running g']
  by (simp add: unfinished_def)

lemma sum_running_pos: "g \<in> set gs \<Longrightarrow> g \<noteq> Exited \<Longrightarrow> 0 < sum_list (map running gs)"
  by (induction gs) (auto simp: running_def)

lemma running_pos: "i < length (goroutines s) \<Longrightarrow> goroutines s ! i \<noteq> Exited \<Longrightarrow> 0 < unfinished s"
  unfolding unfinished_def by (rule sum_running_pos [OF nth_mem])

lemma safe_goroutine_step:
  assumes safe: "safe ev e s" and i: "i < length (goroutines s)"
    and st: "goroutine_step ev e (goroutines s ! i) s = Some (g', s1)"
  shows "safe ev e (s1\<lparr>goroutines := (goroutines s1)[i := g']\<rparr>)"
proof -
  let ?g = "goroutines s ! i"
  let ?s' = "s1\<lparr>goroutines := (goroutines s1)[i := g']\<rparr>"
  note fr = goroutine_step_frame [OF st]
  have pos: "0 < unfinished s"
    using running_pos [OF i fr(5)] .
  have upd: "unfinished ?s' + running ?g = unfinished s + running g'"
    using unfinished_update [OF i fr(2)] .
  have rg: "running ?g = 1" using fr(5) by (simp add: running_def)
  have open_eq: "is_open ev e ?s' = is_open ev e s" "ch_closed ?s' = ch_closed s" "pc ?s' = pc s"
    using fr by (simp_all add: is_open_def)
  from i have ne: "goroutines s \<noteq> []" by auto
  from safe pos ne have phase: "(\<exists>scr rest. pc s = wg_Add scr rest)
      \<or> (\<exists>scr rest. pc s = go scr rest) \<or> pc s = wg_Wait"
    by (cases "pc s") (auto simp: safe_def quiet_def joined_def)
  from safe phase have nc: "\<not> ch_closed s" and np: "\<not> panicked s" and wgpos: "0 < wg s"
    using pos by (auto simp: safe_def)
  show ?thesis
  proof (cases "?g = wg_Done")
    case True
    with fr have g': "g' = Exited" and w: "wg s1 = wg s - 1" by simp_all
    from upd rg g' have u: "unfinished ?s' + 1 = unfinished s" by (simp add: running_def)
    from fr(8) [OF nc] np wgpos have "\<not> panicked s1" by simp
    with safe phase u w open_eq show ?thesis
      by (auto simp: safe_def)
  next
    case False
    with fr have g': "g' \<noteq> Exited" and w: "wg s1 = wg s" by simp_all
    from upd rg g' have u: "unfinished ?s' = unfinished s" by (simp add: running_def)
    from fr(8) [OF nc] np False have "\<not> panicked s1" by simp
    with safe phase u w open_eq show ?thesis
      by (auto simp: safe_def)
  qed
qed

lemma safe_step:
  assumes "safe ev e s" and "step ev e tid s = Some s'"
  shows "safe ev e s'"
proof (cases tid)
  case 0
  with assms show ?thesis by (simp add: step_def safe_main_step)
next
  case (Suc i)
  with assms show ?thesis
    by (auto simp: step_def safe_goroutine_step split: if_splits option.splits)
qed

lemma safe_run:
  "safe ev e s \<Longrightarrow> run ev e sched s = Some s' \<Longrightarrow> safe ev e s'"
  by (induction sched arbitrary: s) (auto split: option.splits dest: safe_step)

lemma step_Returned: "safe ev e s \<Longrightarrow> pc s = Returned \<Longrightarrow> step ev e tid s = None"
proof (cases tid)
  case 0
  assume "pc s = Returned"
  with 0 show ?thesis by (simp add: step_def main_step_def)
next
  case (Suc i)
  assume "safe ev e s" "pc s = Returned"
  then have "\<forall>g\<in>set (goroutines s). g = Exited"
    by (simp add: safe_def joined_def unfinished_0_iff)
  then have "i < length (goroutines s) \<Longrightarrow> goroutines s ! i = Exited"
    by simp
  with Suc show ?thesis
    by (auto simp: step_def goroutine_step_def)
qed
section \<open>Every metric reaches the channel\<close>

lemma to_start_range_scrapers: "to_start ev e (range_scrapers rest) = rest"
  by (simp add: to_start_def range_scrapers_def split: list.splits)

lemma connection_pending_range_scrapers: "connection_pending ev e (range_scrapers rest) = []"
  by (simp add: connection_pending_def range_scrapers_def split: list.splits)

lemma collected_range_scrapers: "collected (range_scrapers rest) m = []"
  by (simp add: collected_def range_scrapers_def split: list.splits)

lemma is_open_opens: "is_open ev e s \<Longrightarrow> opens ev e"
  by (auto simp: is_open_def opens_def split: db_state.splits)

lemma is_open_the_db:
  "is_open ev e s \<Longrightarrow> (case db_conn s of Opened d \<Rightarrow> d | _ \<Rightarrow> closed_db) = the_db ev e"
  by (auto simp: is_open_def the_db_def split: db_state.splits)

lemma sum_list_Call_Scrape:
  "sum_list (map (\<lambda>g. mset (g_sends ev e g)) (map Call_Scrape scrs))
     = sum_list (map (\<lambda>scr. mset (fst (scrape_result ev e scr))
                            + {#duration_metric ev (collect_label scr)#}) scrs)"
  by (induction scrs) simp_all

lemma ch_inv_init: "ch_inv ev e (init m)"
  by (simp add: ch_inv_def init_def all_goroutines_def to_start_def connection_pending_def
      collected_def scrape_metrics_def comp_def)

lemma ch_inv_main_step:
  assumes "safe ev e s" and "ch_inv ev e s" and "main_step ev e s = Some s'"
  shows "ch_inv ev e s'"
proof (cases "pc s")
  case Call_sql_Open
  with assms show ?thesis
    by (auto simp: ch_inv_def main_step_def all_goroutines_def to_start_def
        connection_pending_def collected_def opens_def split: sum.splits)
next
  case Send_connection_duration
  then have old: "to_start ev e (pc s) = scrapers e"
    "connection_pending ev e (pc s) = [duration_metric ev ''connection'']"
    "collected (pc s) (metrics s) = []"
    by (simp_all add: to_start_def connection_pending_def collected_def)
  from assms Send_connection_duration
  have s': "s' = s\<lparr>ch := ch s @ [duration_metric ev ''connection''],
                      pc := range_scrapers (scrapers e)\<rparr>"
    by (simp add: main_step_def safe_def quiet_def send_open)
  from assms(2) old show ?thesis
    unfolding ch_inv_def s' all_goroutines_def
    by (simp add: to_start_range_scrapers connection_pending_range_scrapers
        collected_range_scrapers)
next
  case (go scr rest)
  then have old: "to_start ev e (pc s) = scr # rest" "connection_pending ev e (pc s) = []"
    "collected (pc s) (metrics s) = []"
    by (simp_all add: to_start_def connection_pending_def collected_def)
  from assms go
  have s': "s' = s\<lparr>goroutines := goroutines s @ [Call_Scrape scr], pc := range_scrapers rest\<rparr>"
    by (simp add: main_step_def)
  from assms(2) old show ?thesis
    unfolding ch_inv_def s' all_goroutines_def
    by (simp add: to_start_range_scrapers connection_pending_range_scrapers
        collected_range_scrapers)
next
  case wg_Wait
  with assms show ?thesis
    by (auto simp: ch_inv_def main_step_def all_goroutines_def to_start_def
        connection_pending_def collected_def split: if_splits)
next
  case ScrapeErrors_Collect
  with assms show ?thesis
    by (auto simp: ch_inv_def main_step_def safe_def fold_send_open all_goroutines_def
        to_start_def connection_pending_def collected_def)
qed (use assms in \<open>auto simp: ch_inv_def main_step_def safe_def quiet_def send_open
      all_goroutines_def to_start_def connection_pending_def collected_def
      TotalScrapes_metric_def Error_metric_def ScrapeErrors_metrics_def CubridUp_metric_def\<close>)
lemma live_goroutine_phase:
  assumes "safe ev e s" and "i < length (goroutines s)" and "goroutines s ! i \<noteq> Exited"
  shows "is_open ev e s" and "\<not> ch_closed s" and "\<not> panicked s" and "0 < wg s"
    and "connection_pending ev e (pc s) = []" and "collected (pc s) m = []"
    and "to_start ev e (pc s) = [] \<or> (\<exists>scr rest. pc s = wg_Add scr rest \<or> pc s = go scr rest)"
proof -
  from assms(2) have ne: "goroutines s \<noteq> []" by auto
  have pos: "0 < unfinished s" using running_pos [OF assms(2,3)] .
  from assms(1) pos ne have phase: "(\<exists>scr rest. pc s = wg_Add scr rest)
      \<or> (\<exists>scr rest. pc s = go scr rest) \<or> pc s = wg_Wait"
    by (cases "pc s") (auto simp: safe_def quiet_def joined_def)
  with assms(1) pos show "is_open ev e s" and "\<not> ch_closed s" and "\<not> panicked s" and "0 < wg s"
    by (auto simp: safe_def)
  from phase show "connection_pending ev e (pc s) = []" and "collected (pc s) m = []"
    and "to_start ev e (pc s) = [] \<or> (\<exists>scr rest. pc s = wg_Add scr rest \<or> pc s = go scr rest)"
    by (auto simp: connection_pending_def collected_def to_start_def)
qed

lemma goroutine_step_sends:
  assumes "goroutine_step ev e g s = Some (g', s1)" and "\<not> ch_closed s" and "is_open ev e s"
  shows "mset (ch s1) + mset (g_sends ev e g') = mset (ch s) + mset (g_sends ev e g)"
  using assms is_open_the_db [OF assms(3)]
  by (cases g)
     (auto simp: goroutine_step_def send_open scrape_result_def
       split: list.splits option.splits prod.splits)

lemma all_goroutines_update:
  assumes "i < length (goroutines s)" and "goroutines s1 = goroutines s" and "pc s1 = pc s"
  shows "all_goroutines ev e (s1\<lparr>goroutines := (goroutines s1)[i := g']\<rparr>)
           = (all_goroutines ev e s)[i := g']"
    and "all_goroutines ev e s ! i = goroutines s ! i"
    and "i < length (all_goroutines ev e s)"
  using assms by (simp_all add: all_goroutines_def list_update_append1 nth_append)

lemma ch_inv_goroutine_step:
  assumes safe: "safe ev e s" and inv: "ch_inv ev e s" and i: "i < length (goroutines s)"
    and st: "goroutine_step ev e (goroutines s ! i) s = Some (g', s1)"
  shows "ch_inv ev e (s1\<lparr>goroutines := (goroutines s1)[i := g']\<rparr>)"
proof -
  let ?f = "\<lambda>g. mset (g_sends ev e g)"
  note fr = goroutine_step_frame [OF st]
  note ph = live_goroutine_phase [OF safe i fr(5)]
  note ag = all_goroutines_update [OF i fr(2) fr(1), where ev = ev and e = e]
  have sends: "mset (ch s1) + ?f g' = mset (ch s) + ?f (goroutines s ! i)"
    using goroutine_step_sends [OF st ph(2) ph(1)] .
  have upd: "sum_list (map ?f ((all_goroutines ev e s)[i := g'])) + ?f (goroutines s ! i)
      = sum_list (map ?f (all_goroutines ev e s)) + ?f g'"
    using sum_list_map_update [OF ag(3), of ?f g'] ag(2) by simp
  have "mset (ch s1) + sum_list (map ?f ((all_goroutines ev e s)[i := g']))
          + ?f (goroutines s ! i)
        = mset (ch s1) + ?f g' + sum_list (map ?f (all_goroutines ev e s))"
    using upd by (simp add: ac_simps)
  also have "\<dots> = mset (ch s) + sum_list (map ?f (all_goroutines ev e s)) + ?f (goroutines s ! i)"
    using sends by (simp add: ac_simps)
  finally have "mset (ch s1) + sum_list (map ?f ((all_goroutines ev e s)[i := g']))
        = mset (ch s) + sum_list (map ?f (all_goroutines ev e s))"
    by simp
  with inv ph(5) ph(6) fr(1) ag(1) show ?thesis
    by (simp add: ch_inv_def)
qed

lemma ch_inv_step:
  assumes "safe ev e s" and "ch_inv ev e s" and "step ev e tid s = Some s'"
  shows "ch_inv ev e s'"
proof (cases tid)
  case 0
  with assms show ?thesis by (simp add: step_def ch_inv_main_step)
next
  case (Suc i)
  with assms show ?thesis
    by (auto simp: step_def ch_inv_goroutine_step split: if_splits option.splits)
qed

lemma ch_inv_run:
  "safe ev e s \<Longrightarrow> ch_inv ev e s \<Longrightarrow> run ev e sched s = Some s' \<Longrightarrow> ch_inv ev e s'"
  by (induction sched arbitrary: s) (auto split: option.splits dest: safe_step ch_inv_step)
section \<open>The statements one by one\<close>

lemma main_step_cases [consumes 2, case_names TotalScrapes_Inc open_failed opened
    Log_open_error Error_Set_1 SetMaxOpenConns SetMaxIdleConns SetConnMaxLifetime
    CubridUp_Set_1 Error_Set_0 Send_connection_duration wg_Add go wg_Wait db_Close
    Send_TotalScrapes Send_Error ScrapeErrors_Collect Send_CubridUp Return]:
  assumes "safe ev e s" and "main_step ev e s = Some s'"
  obtains
    "pc s = TotalScrapes_Inc"
      "s' = s\<lparr>metrics := (metrics s)\<lparr>TotalScrapes := Suc (TotalScrapes (metrics s))\<rparr>,
                pc := Call_sql_Open\<rparr>"
  | err where "pc s = Call_sql_Open" "sql_Open ev ''cubrid'' (dsn e) = Inl err"
      "s' = s\<lparr>db_ops := db_ops s @ [Op_Open], pc := Log_open_error err\<rparr>"
  | d where "pc s = Call_sql_Open" "sql_Open ev ''cubrid'' (dsn e) = Inr d"
      "s' = s\<lparr>db_ops := db_ops s @ [Op_Open], db_conn := Opened d, pc := SetMaxOpenConns\<rparr>"
  | err where "pc s = Log_open_error err"
      "s' = s\<lparr>logged := logged s @ [ErrorOpeningConnection err], pc := Error_Set_1\<rparr>"
  | "pc s = Error_Set_1"
      "s' = s\<lparr>metrics := (metrics s)\<lparr>Error := Fin 1\<rparr>, pc := Send_TotalScrapes\<rparr>"
  | "pc s = SetMaxOpenConns"
      "s' = s\<lparr>db_ops := db_ops s @ [Op_SetMaxOpenConns 1], pc := SetMaxIdleConns\<rparr>"
  | "pc s = SetMaxIdleConns"
      "s' = s\<lparr>db_ops := db_ops s @ [Op_SetMaxIdleConns 1], pc := SetConnMaxLifetime\<rparr>"
  | "pc s = SetConnMaxLifetime"
      "s' = s\<lparr>db_ops := db_ops s @ [Op_SetConnMaxLifetime (60 * time_Second)],
                pc := CubridUp_Set_1\<rparr>"
  | "pc s = CubridUp_Set_1"
      "s' = s\<lparr>metrics := (metrics s)\<lparr>CubridUp := Fin 1\<rparr>, pc := Error_Set_0\<rparr>"
  | "pc s = Error_Set_0"
      "s' = s\<lparr>metrics := (metrics s)\<lparr>Error := Fin 0\<rparr>, pc := Send_connection_duration\<rparr>"
  | "pc s = Send_connection_duration"
      "s' = s\<lparr>ch := ch s @ [duration_metric ev ''connection''],
                pc := range_scrapers (scrapers e)\<rparr>"
  | scr rest where "pc s = wg_Add scr rest" "s' = s\<lparr>wg := wg s + 1, pc := go scr rest\<rparr>"
  | scr rest where "pc s = go scr rest"
      "s' = s\<lparr>goroutines := goroutines s @ [Call_Scrape scr], pc := range_scrapers rest\<rparr>"
  | "pc s = wg_Wait" "wg s = 0" "s' = s\<lparr>pc := db_Close\<rparr>"
  | "pc s = db_Close"
      "s' = s\<lparr>db_ops := db_ops s @ [Op_Close], db_conn := Closed, pc := Send_TotalScrapes\<rparr>"
  | "pc s = Send_TotalScrapes"
      "s' = s\<lparr>ch := ch s @ [TotalScrapes_metric (metrics s)], pc := Send_Error\<rparr>"
  | "pc s = Send_Error"
      "s' = s\<lparr>ch := ch s @ [Error_metric (metrics s)], pc := ScrapeErrors_Collect\<rparr>"
  | "pc s = ScrapeErrors_Collect"
      "s' = s\<lparr>ch := ch s @ ScrapeErrors_metrics (metrics s), pc := Send_CubridUp\<rparr>"
  | "pc s = Send_CubridUp"
      "s' = s\<lparr>ch := ch s @ [CubridUp_metric (metrics s)], pc := Return\<rparr>"
  | "pc s = Return" "s' = s\<lparr>ch_closed := True, pc := Returned\<rparr>"
proof (cases "pc s")
  case TotalScrapes_Inc
  with assms that(1) show ?thesis
    by (simp add: main_step_def)
next
  case Call_sql_Open
  with assms that(2,3) show ?thesis
    by (cases "sql_Open ev ''cubrid'' (dsn e)") (simp_all add: main_step_def)
next
  case (Log_open_error err)
  with assms that(4) show ?thesis
    by (simp add: main_step_def)
next
  case Error_Set_1
  with assms that(5) show ?thesis
    by (simp add: main_step_def)
next
  case SetMaxOpenConns
  with assms that(6) show ?thesis
    by (simp add: main_step_def)
next
  case SetMaxIdleConns
  with assms that(7) show ?thesis
    by (simp add: main_step_def)
next
  case SetConnMaxLifetime
  with assms that(8) show ?thesis
    by (simp add: main_step_def)
next
  case CubridUp_Set_1
  with assms that(9) show ?thesis
    by (simp add: main_step_def)
next
  case Error_Set_0
  with assms that(10) show ?thesis
    by (simp add: main_step_def)
next
  case Send_connection_duration
  with assms that(11) show ?thesis
    by (simp add: main_step_def safe_def quiet_def send_open fold_send_open)
next
  case (wg_Add scr rest)
  with assms that(12) show ?thesis
    by (simp add: main_step_def)
next
  case (go scr rest)
  with assms that(13) show ?thesis
    by (simp add: main_step_def)
next
  case wg_Wait
  with assms that(14) show ?thesis
    by (simp add: main_step_def split: if_splits)
next
  case db_Close
  with assms that(15) show ?thesis
    by (simp add: main_step_def)
next
  case Send_TotalScrapes
  with assms that(16) show ?thesis
    by (simp add: main_step_def safe_def quiet_def send_open fold_send_open)
next
  case Send_Error
  with assms that(17) show ?thesis
    by (simp add: main_step_def safe_def quiet_def send_open fold_send_open)
next
  case ScrapeErrors_Collect
  with assms that(18) show ?thesis
    by (simp add: main_step_def safe_def quiet_def send_open fold_send_open)
next
  case Send_CubridUp
  with assms that(19) show ?thesis
    by (simp add: main_step_def safe_def quiet_def send_open fold_send_open)
next
  case Return
  with assms that(20) show ?thesis
    by (simp add: main_step_def)
next
  case Returned
  with assms show ?thesis
    by (simp add: main_step_def)
qed
section \<open>The exporter's own metrics\<close>

lemma counter_value_Inc:
  "counter_value (WithLabelValues_Inc label children) l
     = counter_value children l + (if l = label then 1 else 0)"
  by (induction children) (auto simp: counter_value_def)

lemma ex_list_update:
  assumes "i < length gs"
  shows "(\<exists>g\<in>set (gs[i := g']). P g) \<longleftrightarrow> P g' \<or> (\<exists>j<length gs. j \<noteq> i \<and> P (gs ! j))"
    and "(\<exists>g\<in>set gs. P g) \<longleftrightarrow> P (gs ! i) \<or> (\<exists>j<length gs. j \<noteq> i \<and> P (gs ! j))"
proof -
  have "(\<exists>g\<in>set (gs[i := g']). P g) \<longleftrightarrow> (\<exists>j<length gs. P (gs[i := g'] ! j))"
    by (simp add: Bex_def in_set_conv_nth) blast
  also have "\<dots> \<longleftrightarrow> P g' \<or> (\<exists>j<length gs. j \<noteq> i \<and> P (gs ! j))"
    using assms by (auto simp: nth_list_update split: if_splits)
  finally show "(\<exists>g\<in>set (gs[i := g']). P g)
      \<longleftrightarrow> P g' \<or> (\<exists>j<length gs. j \<noteq> i \<and> P (gs ! j))" .
  have "(\<exists>g\<in>set gs. P g) \<longleftrightarrow> (\<exists>j<length gs. P (gs ! j))"
    by (simp add: Bex_def in_set_conv_nth) blast
  also have "\<dots> \<longleftrightarrow> P (gs ! i) \<or> (\<exists>j<length gs. j \<noteq> i \<and> P (gs ! j))"
    using assms by auto
  finally show "(\<exists>g\<in>set gs. P g) \<longleftrightarrow> P (gs ! i) \<or> (\<exists>j<length gs. j \<noteq> i \<and> P (gs ! j))" .
qed

lemma metrics_inv_init: "metrics_inv ev e m (init m)"
  by (simp add: metrics_inv_def error_inv_def error_phase_def init_def up_is_set_def
      all_goroutines_def to_start_def comp_def)

lemma phase_range_scrapers:
  "up_is_set ev e (range_scrapers rest)" "error_phase ev e (range_scrapers rest) = 1"
  "range_scrapers rest \<noteq> TotalScrapes_Inc"
  by (simp_all add: up_is_set_def error_phase_def range_scrapers_def split: list.splits)

lemma metrics_inv_main_step:
  assumes safe: "safe ev e s" and inv: "metrics_inv ev e m0 s" and st: "main_step ev e s = Some s'"
  shows "metrics_inv ev e m0 s'"
  using safe st
proof (cases rule: main_step_cases)
  case (open_failed err)
  with inv show ?thesis
    by (simp add: metrics_inv_def error_inv_def error_phase_def up_is_set_def
        all_goroutines_def to_start_def opens_def)
next
  case (opened d)
  with inv show ?thesis
    by (simp add: metrics_inv_def error_inv_def error_phase_def up_is_set_def
        all_goroutines_def to_start_def opens_def)
next
  case Error_Set_1
  with safe have "\<not> opens ev e" by (simp add: safe_def opens_def)
  with inv Error_Set_1 show ?thesis
    by (simp add: metrics_inv_def error_inv_def error_phase_def up_is_set_def
        all_goroutines_def to_start_def)
next
  case Error_Set_0
  with safe have q: "goroutines s = []" and op: "opens ev e"
    by (auto simp: safe_def quiet_def is_open_opens)
  have ef: "error_foreseen ev e (Fin 0) (map Call_Scrape (scrapers e))"
    by (auto simp: error_foreseen_def failing_def)
  from inv Error_Set_0 ef q show ?thesis
    by (simp add: metrics_inv_def error_inv_def error_phase_def up_is_set_def
        all_goroutines_def to_start_def)
next
  case Send_connection_duration
  then have old: "to_start ev e (pc s) = scrapers e" "up_is_set ev e (pc s)"
    "error_phase ev e (pc s) = 1" "pc s \<noteq> TotalScrapes_Inc"
    by (simp_all add: to_start_def up_is_set_def error_phase_def)
  from inv old show ?thesis
    by (simp add: metrics_inv_def error_inv_def Send_connection_duration(2) all_goroutines_def
        to_start_range_scrapers phase_range_scrapers)
next
  case (go scr rest)
  then have old: "to_start ev e (pc s) = scr # rest" "up_is_set ev e (pc s)"
    "error_phase ev e (pc s) = 1" "pc s \<noteq> TotalScrapes_Inc"
    by (simp_all add: to_start_def up_is_set_def error_phase_def)
  from inv old show ?thesis
    by (simp add: metrics_inv_def error_inv_def go(2) all_goroutines_def
        to_start_range_scrapers phase_range_scrapers)
next
  case db_Close
  with safe have "opens ev e" by (auto simp: safe_def dest: is_open_opens)
  with inv db_Close show ?thesis
    by (simp add: metrics_inv_def error_inv_def error_phase_def up_is_set_def
        all_goroutines_def to_start_def)
qed (use inv in \<open>simp_all add: metrics_inv_def error_inv_def error_phase_def up_is_set_def
      all_goroutines_def to_start_def split: if_splits\<close>)
lemma goroutine_step_cases [consumes 1, case_names Call_Scrape Sending Scrape_ok Scrape_failed
    Log_scrape_error ScrapeErrors_Inc Error_Set_1_scraper Send_duration wg_Done]:
  assumes "goroutine_step ev e g s = Some (g', s1)"
  obtains
    scr ms err where "g = Call_Scrape scr"
      "Scrape scr (ctx e) (case db_conn s of Opened d \<Rightarrow> d | _ \<Rightarrow> closed_db) = (ms, err)"
      "g' = Sending scr ms err" "s1 = s\<lparr>db_ops := db_ops s @ [Op_Scrape (collect_label scr)]\<rparr>"
  | scr m ms err where "g = Sending scr (m # ms) err" "g' = Sending scr ms err" "s1 = send m s"
  | scr where "g = Sending scr [] None" "g' = Send_duration scr" "s1 = s"
  | scr err where "g = Sending scr [] (Some err)" "g' = Log_scrape_error scr err" "s1 = s"
  | scr err where "g = Log_scrape_error scr err" "g' = ScrapeErrors_Inc scr"
      "s1 = s\<lparr>logged := logged s @ [ErrorScraping (collect_label scr) err]\<rparr>"
  | scr where "g = ScrapeErrors_Inc scr" "g' = Error_Set_1_scraper scr"
      "s1 = s\<lparr>metrics := (metrics s)\<lparr>ScrapeErrors :=
              WithLabelValues_Inc (collect_label scr) (ScrapeErrors (metrics s))\<rparr>\<rparr>"
  | scr where "g = Error_Set_1_scraper scr" "g' = Send_duration scr"
      "s1 = s\<lparr>metrics := (metrics s)\<lparr>Error := Fin 1\<rparr>\<rparr>"
  | scr where "g = Send_duration scr" "g' = wg_Done"
      "s1 = send (duration_metric ev (collect_label scr)) s"
  | "g = wg_Done" "g' = Exited"
      "s1 = (if wg s - 1 < 0 then s\<lparr>wg := wg s - 1, panicked := True\<rparr> else s\<lparr>wg := wg s - 1\<rparr>)"
proof (cases g)
  case (Call_Scrape scr)
  with assms that(1) show ?thesis
    by (auto simp: goroutine_step_def split: prod.splits)
next
  case (Sending scr ms err)
  show ?thesis
  proof (cases ms)
    case Nil
    with Sending assms that(3,4) show ?thesis
      by (cases err) (simp_all add: goroutine_step_def)
  next
    case (Cons m ms')
    with Sending assms that(2) show ?thesis
      by (simp add: goroutine_step_def)
  qed
next
  case (Log_scrape_error scr err)
  with assms that(5) show ?thesis by (simp add: goroutine_step_def)
next
  case (ScrapeErrors_Inc scr)
  with assms that(6) show ?thesis by (simp add: goroutine_step_def)
next
  case (Error_Set_1_scraper scr)
  with assms that(7) show ?thesis by (simp add: goroutine_step_def)
next
  case (Send_duration scr)
  with assms that(8) show ?thesis by (simp add: goroutine_step_def)
next
  case wg_Done
  with assms that(9) show ?thesis by (simp add: goroutine_step_def)
next
  case Exited
  with assms show ?thesis by (simp add: goroutine_step_def)
qed

lemma goroutine_step_metrics:
  assumes st: "goroutine_step ev e g s = Some (g', s1)" and op: "is_open ev e s"
    and nc: "\<not> ch_closed s"
  shows "TotalScrapes (metrics s1) = TotalScrapes (metrics s)"
    and "CubridUp (metrics s1) = CubridUp (metrics s)"
    and "counter_value (ScrapeErrors (metrics s1)) l + g_inc ev e l g'
           = counter_value (ScrapeErrors (metrics s)) l + g_inc ev e l g"
    and "(Error (metrics s1) = Error (metrics s) \<and> g_fails ev e g' = g_fails ev e g)
         \<or> (Error (metrics s1) = Fin 1 \<and> g_fails ev e g \<and> \<not> g_fails ev e g')"
proof -
  have "TotalScrapes (metrics s1) = TotalScrapes (metrics s)
    \<and> CubridUp (metrics s1) = CubridUp (metrics s)
    \<and> counter_value (ScrapeErrors (metrics s1)) l + g_inc ev e l g'
           = counter_value (ScrapeErrors (metrics s)) l + g_inc ev e l g
    \<and> ((Error (metrics s1) = Error (metrics s) \<and> g_fails ev e g' = g_fails ev e g)
         \<or> (Error (metrics s1) = Fin 1 \<and> g_fails ev e g \<and> \<not> g_fails ev e g'))"
    using st
  proof (cases rule: goroutine_step_cases)
    case (Call_Scrape scr ms err)
    with is_open_the_db [OF op] have "scrape_result ev e scr = (ms, err)"
      by (simp add: scrape_result_def)
    with Call_Scrape show ?thesis
      by (simp add: g_inc_def)
  next
    case (ScrapeErrors_Inc scr)
    then show ?thesis
      by (simp add: g_inc_def counter_value_Inc)
  qed (simp_all add: g_inc_def send_open [OF nc])
  then show "TotalScrapes (metrics s1) = TotalScrapes (metrics s)"
    and "CubridUp (metrics s1) = CubridUp (metrics s)"
    and "counter_value (ScrapeErrors (metrics s1)) l + g_inc ev e l g'
           = counter_value (ScrapeErrors (metrics s)) l + g_inc ev e l g"
    and "(Error (metrics s1) = Error (metrics s) \<and> g_fails ev e g' = g_fails ev e g)
         \<or> (Error (metrics s1) = Fin 1 \<and> g_fails ev e g \<and> \<not> g_fails ev e g')"
    by simp_all
qed

lemma live_goroutine_metrics_phase:
  assumes "safe ev e s" and "i < length (goroutines s)" and "goroutines s ! i \<noteq> Exited"
  shows "up_is_set ev e (pc s)" and "error_phase ev e (pc s) = 1" and "pc s \<noteq> TotalScrapes_Inc"
proof -
  from assms(2) have ne: "goroutines s \<noteq> []" by auto
  have pos: "0 < unfinished s" using running_pos [OF assms(2,3)] .
  from assms(1) pos ne have phase: "(\<exists>scr rest. pc s = wg_Add scr rest)
      \<or> (\<exists>scr rest. pc s = go scr rest) \<or> pc s = wg_Wait"
    by (cases "pc s") (auto simp: safe_def quiet_def joined_def)
  then show "up_is_set ev e (pc s)" and "error_phase ev e (pc s) = 1"
    and "pc s \<noteq> TotalScrapes_Inc"
    by (auto simp: up_is_set_def error_phase_def)
qed

lemma error_foreseen_update:
  assumes "i < length gs" and "error_foreseen ev e err gs"
    and "(err' = err \<and> g_fails ev e g' = g_fails ev e (gs ! i))
         \<or> (err' = Fin 1 \<and> g_fails ev e (gs ! i) \<and> \<not> g_fails ev e g')"
  shows "error_foreseen ev e err' (gs[i := g'])"
  using assms(2,3)
  unfolding error_foreseen_def ex_list_update(1) [OF assms(1)]
    ex_list_update(2) [OF assms(1), of "g_fails ev e"]
  by auto

lemma metrics_inv_goroutine_step:
  assumes safe: "safe ev e s" and inv: "metrics_inv ev e m0 s" and i: "i < length (goroutines s)"
    and st: "goroutine_step ev e (goroutines s ! i) s = Some (g', s1)"
  shows "metrics_inv ev e m0 (s1\<lparr>goroutines := (goroutines s1)[i := g']\<rparr>)"
proof -
  let ?s' = "s1\<lparr>goroutines := (goroutines s1)[i := g']\<rparr>"
  note fr = goroutine_step_frame [OF st]
  note ph = live_goroutine_phase [OF safe i fr(5)]
  note mp = live_goroutine_metrics_phase [OF safe i fr(5)]
  note ag = all_goroutines_update [OF i fr(2) fr(1), where ev = ev and e = e]
  note gm = goroutine_step_metrics [OF st ph(1) ph(2)]
  have cnt: "counter_value (ScrapeErrors (metrics s1)) l
               + sum_list (map (g_inc ev e l) ((all_goroutines ev e s)[i := g']))
             = counter_value (ScrapeErrors (metrics s)) l
               + sum_list (map (g_inc ev e l) (all_goroutines ev e s))" for l
  proof -
    have "sum_list (map (g_inc ev e l) ((all_goroutines ev e s)[i := g']))
            + g_inc ev e l (goroutines s ! i)
          = sum_list (map (g_inc ev e l) (all_goroutines ev e s)) + g_inc ev e l g'"
      using sum_list_map_update [OF ag(3), of "g_inc ev e l" g'] ag(2) by simp
    with gm(3) [of l] show ?thesis by simp
  qed
  from inv mp have ef: "error_foreseen ev e (Error (metrics s)) (all_goroutines ev e s)"
    by (simp add: metrics_inv_def error_inv_def)
  have ef': "error_foreseen ev e (Error (metrics s1)) ((all_goroutines ev e s)[i := g'])"
    using error_foreseen_update [OF ag(3) ef] gm(4) ag(2) by simp
  have pc': "pc ?s' = pc s" "metrics ?s' = metrics s1"
    using fr(1) by simp_all
  from inv mp have old: "TotalScrapes (metrics s) = Suc (TotalScrapes m0)"
    "CubridUp (metrics s) = Fin 1"
    "\<And>l. counter_value (ScrapeErrors (metrics s)) l
           + sum_list (map (g_inc ev e l) (all_goroutines ev e s))
         = counter_value (ScrapeErrors m0) l
           + (if opens ev e
              then sum_list (map (\<lambda>scr. g_inc ev e l (Call_Scrape scr)) (scrapers e))
              else 0)"
    by (simp_all add: metrics_inv_def)
  show ?thesis
    unfolding metrics_inv_def error_inv_def pc' ag(1)
    using mp old gm(1,2) cnt ef' by simp
qed

lemma metrics_inv_step:
  assumes "safe ev e s" and "metrics_inv ev e m0 s" and "step ev e tid s = Some s'"
  shows "metrics_inv ev e m0 s'"
proof (cases tid)
  case 0
  with assms show ?thesis by (simp add: step_def metrics_inv_main_step)
next
  case (Suc i)
  with assms show ?thesis
    by (auto simp: step_def metrics_inv_goroutine_step split: if_splits option.splits)
qed

lemma metrics_inv_run:
  "safe ev e s \<Longrightarrow> metrics_inv ev e m0 s \<Longrightarrow> run ev e sched s = Some s' \<Longrightarrow>
   metrics_inv ev e m0 s'"
  by (induction sched arbitrary: s) (auto split: option.splits dest: safe_step metrics_inv_step)
section \<open>The calls on the database handle\<close>

lemma scraping_ops_append:
  assumes "scraping_ops ev e s ops"
  shows "take 4 (ops @ zs) = config_ops" and "drop 4 (ops @ zs) = drop 4 ops @ zs"
    and "4 \<le> length ops"
proof -
  from assms have t: "take 4 ops = config_ops" by (simp add: scraping_ops_def)
  then have "length (take 4 ops) = 4" by (simp add: config_ops_def)
  then show l: "4 \<le> length ops" by simp
  with t show "take 4 (ops @ zs) = config_ops" and "drop 4 (ops @ zs) = drop 4 ops @ zs"
    by simp_all
qed

lemma ops_inv_init: "ops_inv ev e (init m)"
  by (simp add: ops_inv_def init_def)

lemma sum_list_singletons: "sum_list (map (\<lambda>x. {#f x#}) xs) = mset (map f xs)"
  by (induction xs) simp_all

lemma scraping_ops_start:
  assumes "goroutines s = []" and "to_start ev e (pc s) = scrapers e"
  shows "scraping_ops ev e s config_ops"
  using assms sum_list_singletons [of "\<lambda>scr. Op_Scrape (collect_label scr)" "scrapers e"]
  by (simp add: scraping_ops_def all_goroutines_def comp_def config_ops_def)

lemma ops_inv_main_step:
  assumes safe: "safe ev e s" and inv: "ops_inv ev e s" and st: "main_step ev e s = Some s'"
  shows "ops_inv ev e s'"
  using safe st
proof (cases rule: main_step_cases)
  case Error_Set_1
  with safe have "\<not> opens ev e" "db_conn s = NotOpened" by (simp_all add: safe_def opens_def)
  with inv Error_Set_1 show ?thesis
    by (simp add: ops_inv_def)
next
  case Send_connection_duration
  with safe have q: "goroutines s = []" by (simp add: safe_def quiet_def)
  have "scraping_ops ev e s' config_ops"
    by (rule scraping_ops_start)
       (simp_all add: Send_connection_duration(2) q to_start_range_scrapers)
  with inv Send_connection_duration show ?thesis
    by (cases "scrapers e") (simp_all add: ops_inv_def range_scrapers_def)
next
  case (go scr rest)
  then have old: "to_start ev e (pc s) = scr # rest" by (simp add: to_start_def)
  from inv go have so: "scraping_ops ev e s (db_ops s)" by (simp add: ops_inv_def)
  have "scraping_ops ev e s' (db_ops s')"
    using so old
    by (simp add: go(2) scraping_ops_def all_goroutines_def to_start_range_scrapers)
  with go show ?thesis
    by (cases rest) (simp_all add: ops_inv_def range_scrapers_def)
next
  case (wg_Add scr rest)
  with inv show ?thesis
    by (simp add: ops_inv_def scraping_ops_def all_goroutines_def to_start_def)
next
  case wg_Wait
  with inv show ?thesis
    by (simp add: ops_inv_def scraping_ops_def all_goroutines_def to_start_def)
next
  case db_Close
  with safe have "opens ev e" by (auto simp: safe_def dest: is_open_opens)
  with inv db_Close show ?thesis
    by (simp add: ops_inv_def scraping_ops_def all_goroutines_def to_start_def)
qed (use inv in \<open>simp_all add: ops_inv_def config_ops_def scraping_ops_def all_goroutines_def
      to_start_def split: if_splits\<close>)

lemma goroutine_step_ops:
  assumes st: "goroutine_step ev e g s = Some (g', s1)" and nc: "\<not> ch_closed s"
  shows "\<exists>zs. db_ops s1 = db_ops s @ zs \<and> mset zs + mset (g_ops g') = mset (g_ops g)"
  using st by (cases rule: goroutine_step_cases) (simp_all add: send_open [OF nc])

lemma ops_inv_goroutine_step:
  assumes safe: "safe ev e s" and inv: "ops_inv ev e s" and i: "i < length (goroutines s)"
    and st: "goroutine_step ev e (goroutines s ! i) s = Some (g', s1)"
  shows "ops_inv ev e (s1\<lparr>goroutines := (goroutines s1)[i := g']\<rparr>)"
proof -
  let ?s' = "s1\<lparr>goroutines := (goroutines s1)[i := g']\<rparr>"
  let ?f = "\<lambda>g. mset (g_ops g)"
  note fr = goroutine_step_frame [OF st]
  note ph = live_goroutine_phase [OF safe i fr(5)]
  note ag = all_goroutines_update [OF i fr(2) fr(1), where ev = ev and e = e]
  from i have ne: "goroutines s \<noteq> []" by auto
  have pos: "0 < unfinished s" using running_pos [OF i fr(5)] .
  from safe pos ne have phase: "(\<exists>scr rest. pc s = wg_Add scr rest)
      \<or> (\<exists>scr rest. pc s = go scr rest) \<or> pc s = wg_Wait"
    by (cases "pc s") (auto simp: safe_def quiet_def joined_def)
  with inv have so: "scraping_ops ev e s (db_ops s)"
    by (auto simp: ops_inv_def)
  from goroutine_step_ops [OF st ph(2)] obtain zs where
    zs: "db_ops s1 = db_ops s @ zs" "mset zs + ?f g' = ?f (goroutines s ! i)"
    by blast
  have upd: "sum_list (map ?f ((all_goroutines ev e s)[i := g'])) + ?f (goroutines s ! i)
      = sum_list (map ?f (all_goroutines ev e s)) + ?f g'"
    using sum_list_map_update [OF ag(3), of ?f g'] ag(2) by simp
  have "mset zs + sum_list (map ?f ((all_goroutines ev e s)[i := g'])) + ?f (goroutines s ! i)
      = sum_list (map ?f (all_goroutines ev e s)) + (mset zs + ?f g')"
    using upd by (simp add: ac_simps)
  then have eq: "mset zs + sum_list (map ?f ((all_goroutines ev e s)[i := g']))
      = sum_list (map ?f (all_goroutines ev e s))"
    using zs(2) by simp
  have "scraping_ops ev e ?s' (db_ops s @ zs)"
  proof -
    from so have m: "mset (drop 4 (db_ops s)) + sum_list (map ?f (all_goroutines ev e s))
        = mset (map (\<lambda>scr. Op_Scrape (collect_label scr)) (scrapers e))"
      by (simp add: scraping_ops_def)
    have "mset (drop 4 (db_ops s) @ zs) + sum_list (map ?f ((all_goroutines ev e s)[i := g']))
        = mset (drop 4 (db_ops s))
          + (mset zs + sum_list (map ?f ((all_goroutines ev e s)[i := g'])))"
      by (simp add: ac_simps)
    also have "\<dots> = mset (drop 4 (db_ops s)) + sum_list (map ?f (all_goroutines ev e s))"
      by (simp only: eq)
    also note m
    finally show ?thesis
      unfolding scraping_ops_def ag(1) scraping_ops_append [OF so] by simp
  qed
  with phase fr(1) zs(1) show ?thesis
    by (auto simp: ops_inv_def)
qed

lemma ops_inv_step:
  assumes "safe ev e s" and "ops_inv ev e s" and "step ev e tid s = Some s'"
  shows "ops_inv ev e s'"
proof (cases tid)
  case 0
  with assms show ?thesis by (simp add: step_def ops_inv_main_step)
next
  case (Suc i)
  with assms show ?thesis
    by (auto simp: step_def ops_inv_goroutine_step split: if_splits option.splits)
qed

lemma ops_inv_run:
  "safe ev e s \<Longrightarrow> ops_inv ev e s \<Longrightarrow> run ev e sched s = Some s' \<Longrightarrow> ops_inv ev e s'"
  by (induction sched arbitrary: s) (auto split: option.splits dest: safe_step ops_inv_step)
section \<open>Every cycle returns\<close>

lemma m_steps_range_scrapers: "m_steps ev e (range_scrapers rest) = 7 + 2 * length rest"
  by (simp add: m_steps_def range_scrapers_def split: list.splits)

lemma steps_left_main_step:
  assumes safe: "safe ev e s" and st: "main_step ev e s = Some s'"
  shows "Suc (steps_left ev e s') = steps_left ev e s"
  using safe st
proof (cases rule: main_step_cases)
  case (open_failed err)
  then show ?thesis
    by (simp add: steps_left_def m_steps_def all_goroutines_def to_start_def opens_def)
next
  case (opened d)
  then show ?thesis
    by (simp add: steps_left_def m_steps_def all_goroutines_def to_start_def opens_def)
next
  case Send_connection_duration
  then have old: "to_start ev e (pc s) = scrapers e"
    "m_steps ev e (pc s) = 8 + 2 * length (scrapers e)"
    by (simp_all add: to_start_def m_steps_def)
  then show ?thesis
    by (simp add: steps_left_def Send_connection_duration(2) all_goroutines_def
        to_start_range_scrapers m_steps_range_scrapers)
next
  case (go scr rest)
  then have old: "to_start ev e (pc s) = scr # rest" "m_steps ev e (pc s) = 8 + 2 * length rest"
    by (simp_all add: to_start_def m_steps_def)
  then show ?thesis
    by (simp add: steps_left_def go(2) all_goroutines_def to_start_range_scrapers
        m_steps_range_scrapers)
next
  case Error_Set_1
  with safe have "\<not> opens ev e" by (simp add: safe_def opens_def)
  with Error_Set_1 show ?thesis
    by (simp add: steps_left_def m_steps_def all_goroutines_def to_start_def)
next
  case TotalScrapes_Inc
  then show ?thesis
    by (simp add: steps_left_def m_steps_def all_goroutines_def to_start_def)
qed (simp_all add: steps_left_def m_steps_def all_goroutines_def to_start_def)

lemma goroutine_step_steps:
  assumes st: "goroutine_step ev e g s = Some (g', s1)" and op: "is_open ev e s"
  shows "Suc (g_steps ev e g') = g_steps ev e g"
  using st
proof (cases rule: goroutine_step_cases)
  case (Call_Scrape scr ms err)
  with is_open_the_db [OF op] have "scrape_result ev e scr = (ms, err)"
    by (simp add: scrape_result_def)
  with Call_Scrape show ?thesis by simp
qed simp_all

lemma steps_left_goroutine_step:
  assumes safe: "safe ev e s" and i: "i < length (goroutines s)"
    and st: "goroutine_step ev e (goroutines s ! i) s = Some (g', s1)"
  shows "Suc (steps_left ev e (s1\<lparr>goroutines := (goroutines s1)[i := g']\<rparr>)) = steps_left ev e s"
proof -
  note fr = goroutine_step_frame [OF st]
  note ph = live_goroutine_phase [OF safe i fr(5)]
  note ag = all_goroutines_update [OF i fr(2) fr(1), where ev = ev and e = e]
  have "sum_list (map (g_steps ev e) ((all_goroutines ev e s)[i := g']))
          + g_steps ev e (goroutines s ! i)
        = sum_list (map (g_steps ev e) (all_goroutines ev e s)) + g_steps ev e g'"
    using sum_list_map_update [OF ag(3), of "g_steps ev e" g'] ag(2) by simp
  with goroutine_step_steps [OF st ph(1)] fr(1) show ?thesis
    by (simp add: steps_left_def ag(1))
qed

lemma steps_left_step:
  assumes "safe ev e s" and "step ev e tid s = Some s'"
  shows "Suc (steps_left ev e s') = steps_left ev e s"
proof (cases tid)
  case 0
  with assms show ?thesis by (simp add: step_def steps_left_main_step)
next
  case (Suc i)
  with assms show ?thesis
    by (auto simp: step_def steps_left_goroutine_step split: if_splits option.splits)
qed

lemma steps_left_run:
  "safe ev e s \<Longrightarrow> run ev e sched s = Some s' \<Longrightarrow>
   steps_left ev e s' + length sched = steps_left ev e s"
proof (induction sched arbitrary: s)
  case Nil
  then show ?case by simp
next
  case (Cons tid sched)
  from Cons.prems(2) obtain s1 where s1: "step ev e tid s = Some s1"
    and r: "run ev e sched s1 = Some s'"
    by (auto split: option.splits)
  from Cons.IH [OF safe_step [OF Cons.prems(1) s1] r] steps_left_step [OF Cons.prems(1) s1]
  show ?case by simp
qed

lemma main_step_enabled:
  "main_step ev e s = None \<Longrightarrow> pc s = Returned \<or> (pc s = wg_Wait \<and> wg s \<noteq> 0)"
  by (cases "pc s") (simp_all add: main_step_def split: sum.splits if_splits)

lemma goroutine_step_enabled: "g \<noteq> Exited \<Longrightarrow> goroutine_step ev e g s \<noteq> None"
  by (cases g) (simp_all add: goroutine_step_def split: list.splits option.splits prod.splits)

lemma progress:
  assumes safe: "safe ev e s" and nr: "pc s \<noteq> Returned"
  shows "\<exists>tid s'. step ev e tid s = Some s'"
proof (cases "main_step ev e s")
  case (Some s')
  then have "step ev e 0 s = Some s'" by (simp add: step_def)
  then show ?thesis by blast
next
  case None
  with nr main_step_enabled have w: "pc s = wg_Wait" "wg s \<noteq> 0" by blast+
  with safe have "0 < unfinished s" by (simp add: safe_def)
  then have "\<exists>g\<in>set (goroutines s). g \<noteq> Exited"
    using unfinished_0_iff [of s] by auto
  then obtain i where i: "i < length (goroutines s)" "goroutines s ! i \<noteq> Exited"
    by (auto simp: in_set_conv_nth)
  from goroutine_step_enabled [OF i(2), of ev e s] obtain g' s1
    where "goroutine_step ev e (goroutines s ! i) s = Some (g', s1)"
    by (cases "goroutine_step ev e (goroutines s ! i) s") auto
  with i(1) have "step ev e (Suc i) s = Some (s1\<lparr>goroutines := (goroutines s1)[i := g']\<rparr>)"
    by (simp add: step_def)
  then show ?thesis by blast
qed

lemma run_append:
  "run ev e (sched @ sched') s = (case run ev e sched s of None \<Rightarrow> None
                                   | Some s' \<Rightarrow> run ev e sched' s')"
  by (induction sched arbitrary: s) (auto split: option.splits)

lemma completes:
  "safe ev e s \<Longrightarrow> \<exists>sched s'. run ev e sched s = Some s' \<and> pc s' = Returned"
proof (induction "steps_left ev e s" arbitrary: s rule: less_induct)
  case less
  show ?case
  proof (cases "pc s = Returned")
    case True
    then have "run ev e [] s = Some s \<and> pc s = Returned" by simp
    then show ?thesis by blast
  next
    case False
    from progress [OF less.prems False] obtain tid s1 where s1: "step ev e tid s = Some s1"
      by blast
    from steps_left_step [OF less.prems s1] have "steps_left ev e s1 < steps_left ev e s"
      by simp
    from less.hyps [OF this safe_step [OF less.prems s1]] obtain sched s'
      where "run ev e sched s1 = Some s'" "pc s' = Returned" by blast
    with s1 have "run ev e (tid # sched) s = Some s' \<and> pc s' = Returned" by simp
    then show ?thesis by blast
  qed
qed
section \<open>What a cycle guarantees\<close>

lemma cycle_invariants:
  assumes "run ev e sched (init m0) = Some s"
  shows "safe ev e s" and "ch_inv ev e s" and "metrics_inv ev e m0 s" and "ops_inv ev e s"
proof -
  show s: "safe ev e s"
    using safe_run [OF safe_init assms] .
  show "ch_inv ev e s"
    using ch_inv_run [OF safe_init ch_inv_init assms] .
  show "metrics_inv ev e m0 s"
    using metrics_inv_run [OF safe_init metrics_inv_init assms] .
  show "ops_inv ev e s"
    using ops_inv_run [OF safe_init ops_inv_init assms] .
qed

lemma returned_goroutines:
  assumes "safe ev e s" and "pc s = Returned"
  shows "all_goroutines ev e s = goroutines s" and "\<forall>g\<in>set (goroutines s). g = Exited"
    and "ch_closed s"
  using assms by (simp_all add: all_goroutines_def to_start_def safe_def joined_def unfinished_0_iff)

lemma sum_list_exited:
  fixes f :: "goroutine \<Rightarrow> 'b::comm_monoid_add"
  shows "\<forall>g\<in>set gs. g = Exited \<Longrightarrow> f Exited = 0 \<Longrightarrow> sum_list (map f gs) = 0"
  by (induction gs) simp_all

lemma returned_channel:
  assumes "safe ev e s" and "ch_inv ev e s" and "pc s = Returned"
  shows "mset (ch s) = scrape_metrics ev e
           + mset ([TotalScrapes_metric (metrics s), Error_metric (metrics s)]
                   @ ScrapeErrors_metrics (metrics s) @ [CubridUp_metric (metrics s)])"
proof -
  note rg = returned_goroutines [OF assms(1,3)]
  have "sum_list (map (\<lambda>g. mset (g_sends ev e g)) (goroutines s)) = {#}"
    using sum_list_exited [OF rg(2), of "\<lambda>g. mset (g_sends ev e g)"] by simp
  with assms(2,3) rg(1) show ?thesis
    by (simp add: ch_inv_def connection_pending_def collected_def)
qed

lemma run_extends:
  assumes "run ev e sched (init m0) = Some s"
  shows "\<exists>sched' s'. run ev e (sched @ sched') (init m0) = Some s' \<and> pc s' = Returned"
proof -
  from completes [OF cycle_invariants(1) [OF assms]] obtain sched' s'
    where "run ev e sched' s = Some s'" "pc s' = Returned" by blast
  with assms have "run ev e (sched @ sched') (init m0) = Some s' \<and> pc s' = Returned"
    by (simp add: run_append)
  then show ?thesis by blast
qed

text \<open>
  C6. In every state a cycle can reach, under every schedule: nothing was sent on the
  ended stream and the WaitGroup counter never went below 0; while a goroutine has not
  exited, the stream has not ended and the database handle is open; the stream has
  ended only when \<^verbatim>\<open>Collect\<close> has returned, and then every goroutine has exited, the
  channel has delivered every metric of the cycle (those of the scrapers, the
  durations, the exporter's own metrics), and no goroutine can take another step.
  Every run can be continued until \<^verbatim>\<open>Collect\<close> returns.
\<close>

theorem join_before_end_of_stream:
  assumes "run ev e sched (init m0) = Some s"
  shows "\<not> panicked s
    \<and> (\<forall>g\<in>set (goroutines s). g \<noteq> Exited \<longrightarrow> \<not> ch_closed s \<and> is_open ev e s)
    \<and> (ch_closed s \<longrightarrow> pc s = Returned)
    \<and> (pc s = Returned \<longrightarrow>
          ch_closed s \<and> (\<forall>g\<in>set (goroutines s). g = Exited)
          \<and> mset (ch s) = scrape_metrics ev e
               + mset ([TotalScrapes_metric (metrics s), Error_metric (metrics s)]
                       @ ScrapeErrors_metrics (metrics s) @ [CubridUp_metric (metrics s)])
          \<and> (\<forall>tid. step ev e tid s = None))
    \<and> (\<exists>sched' s'. run ev e (sched @ sched') (init m0) = Some s' \<and> pc s' = Returned)"
proof -
  note inv = cycle_invariants [OF assms]
  have 1: "\<not> panicked s" using inv(1) by (simp add: safe_def)
  have 2: "\<forall>g\<in>set (goroutines s). g \<noteq> Exited \<longrightarrow> \<not> ch_closed s \<and> is_open ev e s"
  proof (intro ballI impI)
    fix g assume "g \<in> set (goroutines s)" "g \<noteq> Exited"
    then obtain i where "i < length (goroutines s)" "goroutines s ! i \<noteq> Exited"
      by (auto simp: in_set_conv_nth)
    from live_goroutine_phase(1,2) [OF inv(1) this]
    show "\<not> ch_closed s \<and> is_open ev e s" by simp
  qed
  have 3: "ch_closed s \<longrightarrow> pc s = Returned"
    using inv(1) by (cases "pc s") (auto simp: safe_def quiet_def)
  have 4: "pc s = Returned \<longrightarrow>
          ch_closed s \<and> (\<forall>g\<in>set (goroutines s). g = Exited)
          \<and> mset (ch s) = scrape_metrics ev e
               + mset ([TotalScrapes_metric (metrics s), Error_metric (metrics s)]
                       @ ScrapeErrors_metrics (metrics s) @ [CubridUp_metric (metrics s)])
          \<and> (\<forall>tid. step ev e tid s = None)"
    using returned_goroutines(2,3) [OF inv(1)] returned_channel [OF inv(1,2)]
      step_Returned [OF inv(1)]
    by blast
  from 1 2 3 4 run_extends [OF assms] show ?thesis by blast
qed
lemma sample_names:
  "Name (ScrapeStatdump pf) = ''statdump''" "Name (ScrapeBrokerStatus pf) = ''broker_status''"
  "Name (ScrapeSpaceDBStatus pf) = ''spacedb''"
  by (simp_all add: ScrapeStatdump_def ScrapeBrokerStatus_def ScrapeSpaceDBStatus_def
      statdump_def brokerStatus_def spacedbStatus_def)

lemma sample_scrapes:
  "Scrape (ScrapeStatdump sample_pf) RequestContext sample_db
     = ([ConstMetric StatdumpInfo GaugeValue (Fin 3) [''Num_file_creates'']],
        Some (NumError ''abc'' ErrSyntax))"
  "Scrape (ScrapeBrokerStatus sample_pf) RequestContext sample_db
     = (broker_row sample_pf ''query_editor''
          [''1e400'', ''abc'', ''3'', ''0'', ''0'', ''0'', ''0'', ''0'', ''0'', ''0'', ''0'',
           ''0'', ''0'', ''0''], None)"
  by (simp_all add: ScrapeStatdump_def ScrapeStatdump_Scrape_def ScrapeBrokerStatus_def
      ScrapeBrokerStatus_Scrape_def sample_db_queries sample_pf_values)

lemmas cycle_defs = step_def main_step_def goroutine_step_def send_def range_scrapers_def init_def
  sample_env_def sample_exporter_def New_def failing_env_def collect_label_def duration_metric_def
  TotalScrapes_metric_def Error_metric_def ScrapeErrors_metrics_def CubridUp_metric_def
  NewMetrics_def

lemma sample_run_returns:
  "\<exists>s. run sample_env sample_exporter sample_sched (init NewMetrics) = Some s \<and> pc s = Returned"
  by (simp add: sample_sched_def numeral_eq_Suc cycle_defs sample_scrapes broker_row_def
      broker_metric_def sample_pf_values sample_names)

theorem join_before_end_of_stream_witness:
  "\<exists>s. run sample_env sample_exporter sample_sched (init NewMetrics) = Some s
       \<and> pc s = Returned \<and> \<not> panicked s \<and> ch_closed s
       \<and> (\<forall>g\<in>set (goroutines s). g = Exited)
       \<and> mset (ch s) = scrape_metrics sample_env sample_exporter
               + mset ([TotalScrapes_metric (metrics s), Error_metric (metrics s)]
                       @ ScrapeErrors_metrics (metrics s) @ [CubridUp_metric (metrics s)])
       \<and> (\<forall>tid. step sample_env sample_exporter tid s = None)"
proof -
  from sample_run_returns obtain s
    where r: "run sample_env sample_exporter sample_sched (init NewMetrics) = Some s"
      and p: "pc s = Returned"
    by blast
  from join_before_end_of_stream [OF r] r p show ?thesis by blast
qed

section \<open>The connection\<close>






section \<open>A failing scraper beside the others\<close>

lemma mset_subset_sum_list:
  fixes f :: "'a \<Rightarrow> 'b multiset"
  shows "x \<in> set xs \<Longrightarrow> f x \<subseteq># sum_list (map f xs)"
proof (induction xs)
  case Nil
  then show ?case by simp
next
  case (Cons y ys)
  show ?case
  proof (cases "x = y")
    case True
    then show ?thesis by simp
  next
    case False
    with Cons have "f x \<subseteq># sum_list (map f ys)" by simp
    also have "\<dots> \<subseteq># f y + sum_list (map f ys)" by simp
    finally show ?thesis by simp
  qed
qed

lemma g_inc_Call_Scrape:
  "g_inc ev e l (Call_Scrape scr) = (if failing ev e scr \<and> collect_label scr = l then 1 else 0)"
  by (simp add: g_inc_def failing_def)

lemma collect_label_eq: "collect_label a = collect_label b \<longleftrightarrow> Name a = Name b"
  by (simp add: collect_label_def)

lemma sum_g_inc_absent:
  "Name A \<notin> Name ` set scrs \<Longrightarrow>
   sum_list (map (\<lambda>scr. g_inc ev e (collect_label A) (Call_Scrape scr)) scrs) = 0"
  by (induction scrs) (auto simp: g_inc_Call_Scrape collect_label_eq)

lemma sum_g_inc_present:
  "distinct (map Name scrs) \<Longrightarrow> A \<in> set scrs \<Longrightarrow>
   sum_list (map (\<lambda>scr. g_inc ev e (collect_label A) (Call_Scrape scr)) scrs)
     = (if failing ev e A then 1 else 0)"
proof (induction scrs)
  case Nil
  then show ?case by simp
next
  case (Cons scr scrs)
  show ?case
  proof (cases "scr = A")
    case True
    with Cons.prems have "Name A \<notin> Name ` set scrs" by simp
    from sum_g_inc_absent [OF this, of ev e] True show ?thesis
      by (simp add: g_inc_Call_Scrape)
  next
    case False
    with Cons.prems have A: "A \<in> set scrs" and d: "distinct (map Name scrs)"
      and n: "Name scr \<notin> Name ` set scrs"
      by simp_all
    from A n have "Name scr \<noteq> Name A" by auto
    with Cons.IH [OF d A] show ?thesis
      by (simp add: g_inc_Call_Scrape collect_label_eq)
  qed
qed

lemma returned_metrics:
  assumes "safe ev e s" and "metrics_inv ev e m0 s" and "pc s = Returned" and "opens ev e"
  shows "counter_value (ScrapeErrors (metrics s)) l
           = counter_value (ScrapeErrors m0) l
             + sum_list (map (\<lambda>scr. g_inc ev e l (Call_Scrape scr)) (scrapers e))"
    and "Error (metrics s) = (if \<exists>scr\<in>set (scrapers e). failing ev e scr then Fin 1 else Fin 0)"
    and "CubridUp (metrics s) = Fin 1"
    and "TotalScrapes (metrics s) = Suc (TotalScrapes m0)"
proof -
  note rg = returned_goroutines [OF assms(1,3)]
  have z: "sum_list (map (g_inc ev e l) (goroutines s)) = 0"
    using sum_list_exited [OF rg(2), of "g_inc ev e l"] by (simp add: g_inc_def)
  from assms(2) have m: "counter_value (ScrapeErrors (metrics s)) l
               + sum_list (map (g_inc ev e l) (all_goroutines ev e s))
             = counter_value (ScrapeErrors m0) l
               + (if opens ev e
                  then sum_list (map (\<lambda>scr. g_inc ev e l (Call_Scrape scr)) (scrapers e))
                  else 0)"
    by (simp add: metrics_inv_def)
  show "counter_value (ScrapeErrors (metrics s)) l
           = counter_value (ScrapeErrors m0) l
             + sum_list (map (\<lambda>scr. g_inc ev e l (Call_Scrape scr)) (scrapers e))"
    using m assms(4) unfolding rg(1) z by simp
  from rg(2) have nf: "\<not> (\<exists>g\<in>set (goroutines s). g_fails ev e g)" by auto
  from assms(2,3,4) rg(1)
  have "error_foreseen ev e (Error (metrics s)) (goroutines s)"
    by (simp add: metrics_inv_def error_inv_def error_phase_def)
  with nf show "Error (metrics s)
      = (if \<exists>scr\<in>set (scrapers e). failing ev e scr then Fin 1 else Fin 0)"
    by (auto simp: error_foreseen_def)
  from assms(2,3,4) show "CubridUp (metrics s) = Fin 1"
    by (simp add: metrics_inv_def up_is_set_def)
  from assms(2,3) show "TotalScrapes (metrics s) = Suc (TotalScrapes m0)"
    by (simp add: metrics_inv_def)
qed

lemma returned_scraper_metrics:
  assumes "safe ev e s" and "ch_inv ev e s" and "pc s = Returned"
    and "sql_Open ev ''cubrid'' (dsn e) = Inr d" and "scr \<in> set (scrapers e)"
  shows "mset (fst (Scrape scr (ctx e) d)) + {#duration_metric ev (collect_label scr)#}
           \<subseteq># mset (ch s)"
proof -
  from assms(4) have o: "opens ev e" and d: "the_db ev e = d"
    by (simp_all add: opens_def the_db_def)
  have "mset (fst (scrape_result ev e scr)) + {#duration_metric ev (collect_label scr)#}
      \<subseteq># sum_list (map (\<lambda>scr. mset (fst (scrape_result ev e scr))
                                   + {#duration_metric ev (collect_label scr)#}) (scrapers e))"
    using mset_subset_sum_list [OF assms(5)] .
  also have "\<dots> \<subseteq># scrape_metrics ev e"
    using o by (simp add: scrape_metrics_def)
  also have "\<dots> \<subseteq># mset (ch s)"
    using returned_channel [OF assms(1,2,3)] by simp
  finally show ?thesis
    by (simp add: scrape_result_def d)
qed

text \<open>
  C3. Every run can be continued until \<^verbatim>\<open>Collect\<close> returns, whatever the scrapers
  return. When it has returned after a successful open, with a scraper \<open>A\<close> whose
  \<^verbatim>\<open>Scrape\<close> returned an error and a scraper \<open>B\<close> whose \<^verbatim>\<open>Scrape\<close> returned none, the
  names of the scrapers being distinct: the channel holds all the metrics of \<open>B\<close> and the
  duration of its phase, the metrics \<open>A\<close> sent before it failed and the duration of its
  phase; the error counter of the label \<^verbatim>\<open>collect.A\<close> is one more than before the cycle
  and that of \<^verbatim>\<open>collect.B\<close> is unchanged; the error gauge is 1 and was sent as 1.
\<close>

theorem failing_scraper_spares_siblings:
  assumes "run ev e sched (init m0) = Some s"
  shows "(\<exists>sched' s'. run ev e (sched @ sched') (init m0) = Some s' \<and> pc s' = Returned)
    \<and> (\<forall>d A B msA msB err.
          pc s = Returned \<and> sql_Open ev ''cubrid'' (dsn e) = Inr d
          \<and> distinct (map Name (scrapers e))
          \<and> A \<in> set (scrapers e) \<and> Scrape A (ctx e) d = (msA, Some err)
          \<and> B \<in> set (scrapers e) \<and> Scrape B (ctx e) d = (msB, None)
          \<longrightarrow> mset msB + {#duration_metric ev (collect_label B)#} \<subseteq># mset (ch s)
            \<and> mset msA + {#duration_metric ev (collect_label A)#} \<subseteq># mset (ch s)
            \<and> counter_value (ScrapeErrors (metrics s)) (collect_label A)
                = Suc (counter_value (ScrapeErrors m0) (collect_label A))
            \<and> counter_value (ScrapeErrors (metrics s)) (collect_label B)
                = counter_value (ScrapeErrors m0) (collect_label B)
            \<and> Error (metrics s) = Fin 1
            \<and> ConstMetric last_scrape_error GaugeValue (Fin 1) [] \<in> set (ch s))"
proof -
  note inv = cycle_invariants [OF assms]
  have "mset msB + {#duration_metric ev (collect_label B)#} \<subseteq># mset (ch s)
            \<and> mset msA + {#duration_metric ev (collect_label A)#} \<subseteq># mset (ch s)
            \<and> counter_value (ScrapeErrors (metrics s)) (collect_label A)
                = Suc (counter_value (ScrapeErrors m0) (collect_label A))
            \<and> counter_value (ScrapeErrors (metrics s)) (collect_label B)
                = counter_value (ScrapeErrors m0) (collect_label B)
            \<and> Error (metrics s) = Fin 1
            \<and> ConstMetric last_scrape_error GaugeValue (Fin 1) [] \<in> set (ch s)"
    if p: "pc s = Returned" and o: "sql_Open ev ''cubrid'' (dsn e) = Inr d"
      and dn: "distinct (map Name (scrapers e))"
      and A: "A \<in> set (scrapers e)" "Scrape A (ctx e) d = (msA, Some err)"
      and B: "B \<in> set (scrapers e)" "Scrape B (ctx e) d = (msB, None)"
    for d A B msA msB err
  proof -
    from o have op: "opens ev e" and d: "the_db ev e = d"
      by (simp_all add: opens_def the_db_def)
    from A(2) B(2) d have fA: "failing ev e A" and fB: "\<not> failing ev e B"
      by (simp_all add: failing_def scrape_result_def)
    note rm = returned_metrics [OF inv(1,3) p op]
    have 1: "mset msB + {#duration_metric ev (collect_label B)#} \<subseteq># mset (ch s)"
      using returned_scraper_metrics [OF inv(1,2) p o B(1)] B(2) by simp
    have 2: "mset msA + {#duration_metric ev (collect_label A)#} \<subseteq># mset (ch s)"
      using returned_scraper_metrics [OF inv(1,2) p o A(1)] A(2) by simp
    have 3: "counter_value (ScrapeErrors (metrics s)) (collect_label A)
                = Suc (counter_value (ScrapeErrors m0) (collect_label A))"
      using rm(1) [of "collect_label A"] sum_g_inc_present [OF dn A(1), of ev e] fA by simp
    have 4: "counter_value (ScrapeErrors (metrics s)) (collect_label B)
                = counter_value (ScrapeErrors m0) (collect_label B)"
      using rm(1) [of "collect_label B"] sum_g_inc_present [OF dn B(1), of ev e] fB by simp
    have 5: "Error (metrics s) = Fin 1"
      using rm(2) A(1) fA by auto
    have "Error_metric (metrics s) \<in># mset (ch s)"
      using returned_channel [OF inv(1,2) p] by simp
    with 5 have 6: "ConstMetric last_scrape_error GaugeValue (Fin 1) [] \<in> set (ch s)"
      by (simp add: Error_metric_def)
    from 1 2 3 4 5 6 show ?thesis by blast
  qed
  with run_extends [OF assms] show ?thesis by blast
qed

theorem failing_scraper_spares_siblings_witness:
  "\<exists>s. run sample_env sample_exporter sample_sched (init NewMetrics) = Some s
       \<and> pc s = Returned
       \<and> mset (broker_row sample_pf ''query_editor''
                [''1e400'', ''abc'', ''3'', ''0'', ''0'', ''0'', ''0'', ''0'', ''0'', ''0'', ''0'',
                 ''0'', ''0'', ''0''])
           + {#duration_metric sample_env ''collect.broker_status''#} \<subseteq># mset (ch s)
       \<and> mset [ConstMetric StatdumpInfo GaugeValue (Fin 3) [''Num_file_creates'']]
           + {#duration_metric sample_env ''collect.statdump''#} \<subseteq># mset (ch s)
       \<and> counter_value (ScrapeErrors (metrics s)) ''collect.statdump'' = 1
       \<and> counter_value (ScrapeErrors (metrics s)) ''collect.broker_status'' = 0
       \<and> Error (metrics s) = Fin 1
       \<and> ConstMetric last_scrape_error GaugeValue (Fin 1) [] \<in> set (ch s)"
proof -
  from sample_run_returns obtain s
    where r: "run sample_env sample_exporter sample_sched (init NewMetrics) = Some s"
      and p: "pc s = Returned"
    by blast
  have o: "sql_Open sample_env ''cubrid'' (dsn sample_exporter) = Inr sample_db"
    by (simp add: sample_env_def)
  have c: "ctx sample_exporter = RequestContext"
    and l: "scrapers sample_exporter = [ScrapeStatdump sample_pf, ScrapeBrokerStatus sample_pf]"
    by (simp_all add: sample_exporter_def New_def)
  have dn: "distinct (map Name (scrapers sample_exporter))"
    by (simp add: l sample_names)
  have A: "ScrapeStatdump sample_pf \<in> set (scrapers sample_exporter)"
    and B: "ScrapeBrokerStatus sample_pf \<in> set (scrapers sample_exporter)"
    by (simp_all add: l)
  note sA = sample_scrapes(1) [folded c]
  note sB = sample_scrapes(2) [folded c]
  from failing_scraper_spares_siblings [OF r] p o dn A sA B sB
  have "mset (broker_row sample_pf ''query_editor''
                [''1e400'', ''abc'', ''3'', ''0'', ''0'', ''0'', ''0'', ''0'', ''0'', ''0'', ''0'',
                 ''0'', ''0'', ''0''])
           + {#duration_metric sample_env (collect_label (ScrapeBrokerStatus sample_pf))#}
             \<subseteq># mset (ch s)
       \<and> mset [ConstMetric StatdumpInfo GaugeValue (Fin 3) [''Num_file_creates'']]
           + {#duration_metric sample_env (collect_label (ScrapeStatdump sample_pf))#}
             \<subseteq># mset (ch s)
       \<and> counter_value (ScrapeErrors (metrics s)) (collect_label (ScrapeStatdump sample_pf))
           = Suc (counter_value (ScrapeErrors NewMetrics) (collect_label (ScrapeStatdump sample_pf)))
       \<and> counter_value (ScrapeErrors (metrics s)) (collect_label (ScrapeBrokerStatus sample_pf))
           = counter_value (ScrapeErrors NewMetrics) (collect_label (ScrapeBrokerStatus sample_pf))
       \<and> Error (metrics s) = Fin 1
       \<and> ConstMetric last_scrape_error GaugeValue (Fin 1) [] \<in> set (ch s)"
    by blast
  then have "mset (broker_row sample_pf ''query_editor''
                [''1e400'', ''abc'', ''3'', ''0'', ''0'', ''0'', ''0'', ''0'', ''0'', ''0'', ''0'',
                 ''0'', ''0'', ''0''])
           + {#duration_metric sample_env ''collect.broker_status''#} \<subseteq># mset (ch s)
       \<and> mset [ConstMetric StatdumpInfo GaugeValue (Fin 3) [''Num_file_creates'']]
           + {#duration_metric sample_env ''collect.statdump''#} \<subseteq># mset (ch s)
       \<and> counter_value (ScrapeErrors (metrics s)) ''collect.statdump'' = 1
       \<and> counter_value (ScrapeErrors (metrics s)) ''collect.broker_status'' = 0
       \<and> Error (metrics s) = Fin 1
       \<and> ConstMetric last_scrape_error GaugeValue (Fin 1) [] \<in> set (ch s)"
    by (simp add: collect_label_def sample_names NewMetrics_def counter_value_def)
  with r p show ?thesis by blast
qed
section \<open>A failed open\<close>

lemma fail_inv_init: "fail_inv m0 (init m0)"
  by (simp add: fail_inv_def init_def collected_def)

lemma fail_inv_step:
  assumes no: "\<not> opens ev e" and safe: "safe ev e s" and inv: "fail_inv m0 s"
    and st: "step ev e tid s = Some s'"
  shows "fail_inv m0 s'"
proof (cases tid)
  case 0
  with st have m: "main_step ev e s = Some s'" by (simp add: step_def)
  have closed: "\<not> is_open ev e s" using no by (auto dest: is_open_opens)
  from safe m show ?thesis
  proof (cases rule: main_step_cases)
    case (opened d)
    with no show ?thesis by (simp add: opens_def)
  qed (use inv safe closed in \<open>simp_all add: fail_inv_def collected_def safe_def\<close>)
next
  case (Suc i)
  with st inv show ?thesis by (simp add: step_def fail_inv_def)
qed

lemma fail_inv_run:
  "\<not> opens ev e \<Longrightarrow> safe ev e s \<Longrightarrow> fail_inv m0 s \<Longrightarrow> run ev e sched s = Some s' \<Longrightarrow>
   fail_inv m0 s'"
  by (induction sched arbitrary: s) (auto split: option.splits dest: safe_step fail_inv_step)

lemma failed_ops:
  assumes "\<not> opens ev e" and "safe ev e s" and "ops_inv ev e s"
  shows "db_ops s = [] \<or> db_ops s = [Op_Open]"
  using assms by (cases "pc s") (auto simp: safe_def ops_inv_def dest: is_open_opens)

lemma failed_up:
  assumes "\<not> opens ev e" and "safe ev e s"
  shows "\<not> up_is_set ev e (pc s)"
  using assms by (cases "pc s") (auto simp: safe_def up_is_set_def dest: is_open_opens)

lemma failed_open_cycle:
  assumes "run ev e sched (init m0) = Some s" and "sql_Open ev ''cubrid'' (dsn e) = Inl err"
  shows "goroutines s = []" and "\<forall>l. Op_Scrape l \<notin> set (db_ops s)"
    and "CubridUp (metrics s) = CubridUp m0"
    and "ScrapeErrors (metrics s) = ScrapeErrors m0"
    and "pc s = Returned \<Longrightarrow> db_ops s = [Op_Open]"
    and "pc s = Returned \<Longrightarrow>
           metrics s = m0\<lparr>TotalScrapes := Suc (TotalScrapes m0), Error := Fin 1\<rparr>"
    and "pc s = Returned \<Longrightarrow>
           ch s = [TotalScrapes_metric (metrics s), Error_metric (metrics s)]
                  @ ScrapeErrors_metrics (metrics s) @ [CubridUp_metric (metrics s)]"
proof -
  note inv = cycle_invariants [OF assms(1)]
  from assms(2) have no: "\<not> opens ev e" by (simp add: opens_def)
  note f = fail_inv_run [OF no safe_init fail_inv_init assms(1)]
  from f show "goroutines s = []" by (simp add: fail_inv_def)
  from failed_ops [OF no inv(1,4)] show "\<forall>l. Op_Scrape l \<notin> set (db_ops s)" by auto
  from inv(3) failed_up [OF no inv(1)] show u: "CubridUp (metrics s) = CubridUp m0"
    by (simp add: metrics_inv_def)
  from f show c: "ScrapeErrors (metrics s) = ScrapeErrors m0" by (simp add: fail_inv_def)
  {
    assume p: "pc s = Returned"
    from inv(4) p no show "db_ops s = [Op_Open]" by (simp add: ops_inv_def)
    from inv(3) p no have "TotalScrapes (metrics s) = Suc (TotalScrapes m0)"
      and "Error (metrics s) = Fin 1"
      by (simp_all add: metrics_inv_def error_inv_def error_phase_def)
    with u c show "metrics s = m0\<lparr>TotalScrapes := Suc (TotalScrapes m0), Error := Fin 1\<rparr>"
      by simp
    from f p show "ch s = [TotalScrapes_metric (metrics s), Error_metric (metrics s)]
                  @ ScrapeErrors_metrics (metrics s) @ [CubridUp_metric (metrics s)]"
      by (simp add: fail_inv_def collected_def)
  }
qed

lemma cycles_failed:
  assumes "cycles reqs m = Some m'"
    and "\<forall>(ev, e, sched)\<in>set reqs. isl (sql_Open ev ''cubrid'' (dsn e))"
  shows "TotalScrapes m' = TotalScrapes m + length reqs"
    and "ScrapeErrors m' = ScrapeErrors m" and "CubridUp m' = CubridUp m"
proof -
  have "TotalScrapes m' = TotalScrapes m + length reqs
      \<and> ScrapeErrors m' = ScrapeErrors m \<and> CubridUp m' = CubridUp m"
    using assms
  proof (induction reqs arbitrary: m)
    case Nil
    then show ?case by simp
  next
    case (Cons req reqs)
    obtain ev e sched where req: "req = (ev, e, sched)" by (cases req)
    from Cons.prems(1) req obtain s where r: "run ev e sched (init m) = Some s"
      and p: "pc s = Returned" and c: "cycles reqs (metrics s) = Some m'"
      by (auto split: option.splits pc.splits)
    from Cons.prems(2) req obtain err where o: "sql_Open ev ''cubrid'' (dsn e) = Inl err"
      by (cases "sql_Open ev ''cubrid'' (dsn e)") auto
    from Cons.prems(2) have "\<forall>(ev, e, sched)\<in>set reqs. isl (sql_Open ev ''cubrid'' (dsn e))"
      by simp
    from Cons.IH [OF c this] failed_open_cycle(6) [OF r o p] show ?case by simp
  qed
  then show "TotalScrapes m' = TotalScrapes m + length reqs"
    and "ScrapeErrors m' = ScrapeErrors m" and "CubridUp m' = CubridUp m"
    by simp_all
qed

lemma failing_run_returns:
  "\<exists>s. run failing_env sample_exporter (replicate 9 0)
          (init \<lparr>TotalScrapes = n, ScrapeErrors = [], Error = x, CubridUp = u\<rparr>) = Some s
       \<and> pc s = Returned
       \<and> metrics s = \<lparr>TotalScrapes = Suc n, ScrapeErrors = [], Error = Fin 1, CubridUp = u\<rparr>"
  by (simp add: numeral_eq_Suc cycle_defs)

text \<open>
  C1, amended. \<^verbatim>\<open>sql.Open\<close> is called with the same arguments in every cycle of the
  process; let it return an error, in this cycle as in the cycles before it. Then in
  every state the cycle can reach no goroutine has been started, no scraper has been
  called, and the up gauge is 0: it is not written and still has its initial value. Every
  run can be continued until \<^verbatim>\<open>Collect\<close> returns. When it has returned: the only call on
  the database was the open; the error gauge is 1, the counter of scrapes counts this
  cycle and the earlier ones, and there is no error counter; the channel holds three
  samples, the counter of scrapes, the error gauge with 1 and the up gauge with 0.
\<close>

theorem failed_open_is_fatal:
  assumes "cycles reqs NewMetrics = Some m0"
    and "\<forall>(ev', e', sched')\<in>set reqs.
           sql_Open ev' ''cubrid'' (dsn e') = sql_Open ev ''cubrid'' (dsn e)"
    and "sql_Open ev ''cubrid'' (dsn e) = Inl err"
    and "run ev e sched (init m0) = Some s"
  shows "goroutines s = [] \<and> (\<forall>l. Op_Scrape l \<notin> set (db_ops s))
    \<and> CubridUp (metrics s) = Fin 0
    \<and> (pc s = Returned \<longrightarrow>
         db_ops s = [Op_Open]
         \<and> metrics s = \<lparr>TotalScrapes = Suc (length reqs), ScrapeErrors = [], Error = Fin 1,
                          CubridUp = Fin 0\<rparr>
         \<and> ch s = [ConstMetric scrapes_total CounterValue (Fin (of_nat (Suc (length reqs)))) [],
                   ConstMetric last_scrape_error GaugeValue (Fin 1) [],
                   ConstMetric up GaugeValue (Fin 0) []])
    \<and> (\<exists>sched' s'. run ev e (sched @ sched') (init m0) = Some s' \<and> pc s' = Returned)"
proof -
  from assms(2,3) have "\<forall>(ev', e', sched')\<in>set reqs. isl (sql_Open ev' ''cubrid'' (dsn e'))"
    by auto
  note before = cycles_failed [OF assms(1) this]
  from before have m0: "TotalScrapes m0 = length reqs" "ScrapeErrors m0 = []"
    "CubridUp m0 = Fin 0"
    by (simp_all add: NewMetrics_def)
  note c = failed_open_cycle [OF assms(4,3)]
  from c(3) m0 have up: "CubridUp (metrics s) = Fin 0" by simp
  have ret: "db_ops s = [Op_Open]
         \<and> metrics s = \<lparr>TotalScrapes = Suc (length reqs), ScrapeErrors = [], Error = Fin 1,
                          CubridUp = Fin 0\<rparr>
         \<and> ch s = [ConstMetric scrapes_total CounterValue (Fin (of_nat (Suc (length reqs)))) [],
                   ConstMetric last_scrape_error GaugeValue (Fin 1) [],
                   ConstMetric up GaugeValue (Fin 0) []]"
    if p: "pc s = Returned"
  proof -
    from c(6) [OF p] m0 have m: "metrics s
        = \<lparr>TotalScrapes = Suc (length reqs), ScrapeErrors = [], Error = Fin 1, CubridUp = Fin 0\<rparr>"
      by (cases m0) simp
    from c(7) [OF p] have "ch s
        = [ConstMetric scrapes_total CounterValue (Fin (of_nat (Suc (length reqs)))) [],
           ConstMetric last_scrape_error GaugeValue (Fin 1) [],
           ConstMetric up GaugeValue (Fin 0) []]"
      unfolding m
      by (simp add: TotalScrapes_metric_def Error_metric_def ScrapeErrors_metrics_def
          CubridUp_metric_def)
    with c(5) [OF p] m show ?thesis by simp
  qed
  from c(1,2) up ret run_extends [OF assms(4)] show ?thesis by blast
qed

theorem failed_open_is_fatal_witness:
  "cycles [(failing_env, sample_exporter, replicate 9 0)] NewMetrics
     = Some \<lparr>TotalScrapes = 1, ScrapeErrors = [], Error = Fin 1, CubridUp = Fin 0\<rparr>
   \<and> (\<exists>s. run failing_env sample_exporter (replicate 9 0)
            (init \<lparr>TotalScrapes = 1, ScrapeErrors = [], Error = Fin 1, CubridUp = Fin 0\<rparr>)
          = Some s
       \<and> pc s = Returned \<and> goroutines s = [] \<and> db_ops s = [Op_Open]
       \<and> metrics s = \<lparr>TotalScrapes = 2, ScrapeErrors = [], Error = Fin 1, CubridUp = Fin 0\<rparr>
       \<and> ch s = [ConstMetric scrapes_total CounterValue (Fin 2) [],
                 ConstMetric last_scrape_error GaugeValue (Fin 1) [],
                 ConstMetric up GaugeValue (Fin 0) []])"
proof -
  let ?m1 = "\<lparr>TotalScrapes = 1, ScrapeErrors = [], Error = Fin 1, CubridUp = Fin 0\<rparr>"
  from failing_run_returns [of 0 "Fin 0" "Fin 0"] obtain s1
    where "run failing_env sample_exporter (replicate 9 0) (init NewMetrics) = Some s1"
      and "pc s1 = Returned" and "metrics s1 = ?m1"
    by (auto simp: NewMetrics_def)
  then have c: "cycles [(failing_env, sample_exporter, replicate 9 0)] NewMetrics = Some ?m1"
    by simp
  from failing_run_returns [of 1 "Fin 1" "Fin 0"] obtain s
    where r: "run failing_env sample_exporter (replicate 9 0) (init ?m1) = Some s"
      and p: "pc s = Returned"
    by blast
  have o: "sql_Open failing_env ''cubrid'' (dsn sample_exporter) = Inl (DriverError ''open failed'')"
    by (simp add: failing_env_def)
  have same: "\<forall>(ev', e', sched')\<in>set [(failing_env, sample_exporter, replicate 9 (0::nat))].
           sql_Open ev' ''cubrid'' (dsn e') = sql_Open failing_env ''cubrid'' (dsn sample_exporter)"
    by simp
  from failed_open_is_fatal [OF c same o r] p
  have "goroutines s = [] \<and> db_ops s = [Op_Open]
       \<and> metrics s = \<lparr>TotalScrapes = 2, ScrapeErrors = [], Error = Fin 1, CubridUp = Fin 0\<rparr>
       \<and> ch s = [ConstMetric scrapes_total CounterValue (Fin 2) [],
                 ConstMetric last_scrape_error GaugeValue (Fin 1) [],
                 ConstMetric up GaugeValue (Fin 0) []]"
    by simp
  with c r p show ?thesis by blast
qed

text \<open>
  The first request of a process, with a failing \<^verbatim>\<open>sql.Open\<close>: \<^verbatim>\<open>Collect\<close> sends the
  counter of scrapes beside the two gauges.
\<close>

theorem failed_open_sends_scrapes_total_counterexample:
  "run failing_env sample_exporter (replicate 9 0) (init NewMetrics)
     = Some \<lparr>pc = Returned, goroutines = [], wg = 0, db_conn = NotOpened,
             db_ops = [Op_Open],
             ch = [ConstMetric scrapes_total CounterValue (Fin 1) [],
                   ConstMetric last_scrape_error GaugeValue (Fin 1) [],
                   ConstMetric up GaugeValue (Fin 0) []],
             ch_closed = True,
             metrics = \<lparr>TotalScrapes = 1, ScrapeErrors = [], Error = Fin 1, CubridUp = Fin 0\<rparr>,
             logged = [ErrorOpeningConnection (DriverError ''open failed'')],
             panicked = False\<rparr>"
  by (simp add: numeral_eq_Suc cycle_defs)

end
